theory Spec2Isabelle
  imports Main "HOL-Library.Word"
begin

section \<open>JavaScript values and the platform's JSON functions\<close>

text \<open>
  \<open>LocalMesh.tsx\<close> reads every text frame and every pasted descriptor with the platform's
  \<open>JSON.parse\<close> and writes them with \<open>JSON.stringify\<close>. Both are modelled here after
  ECMA-262 (sections 25.5.1 and 25.5.2) and ECMA-404.

  A string is the list of its 16-bit code units. A number is kept as the decimal mantissa
  and exponent of its literal, without the rounding to a double; the program never
  computes with a parsed number.
\<close>

type_synonym unit16 = "16 word"

type_synonym jsstring = "unit16 list"

text \<open>The code unit of a character of the Latin-1 range, and the string of a literal.\<close>

definition unit_of :: "char \<Rightarrow> unit16" where
  "unit_of c = of_nat (of_char c)"

definition lit :: "string \<Rightarrow> jsstring" where
  "lit s = map unit_of s"

datatype jsval =
    Undefined
  | Null
  | Bool bool
  | Num int int
  | Str jsstring
  | Arr "jsval list"
  | Obj "(jsstring \<times> jsval) list"

datatype exn = SyntaxError | TypeError | TransportError

text \<open>
  Reading a property. On \<open>null\<close> and \<open>undefined\<close> the read throws a TypeError; on an object
  it is the own property, else \<open>undefined\<close>. The program reads the names \<open>t\<close>, \<open>text\<close>,
  \<open>meta\<close> and \<open>size\<close> only, none of which the prototypes of objects, arrays, strings,
  numbers or booleans define, so every other kind of value gives \<open>undefined\<close>.
\<close>

fun get_prop :: "jsval \<Rightarrow> jsstring \<Rightarrow> exn + jsval" where
  "get_prop Undefined k = Inl TypeError"
| "get_prop Null k = Inl TypeError"
| "get_prop (Obj kvs) k = Inr (case map_of kvs k of None \<Rightarrow> Undefined | Some v \<Rightarrow> v)"
| "get_prop v k = Inr Undefined"

text \<open>\<open>CreateDataProperty\<close> on the object under construction: a repeated key keeps its
  place and takes the later value.\<close>

fun set_prop :: "jsstring \<Rightarrow> jsval \<Rightarrow> (jsstring \<times> jsval) list \<Rightarrow> (jsstring \<times> jsval) list" where
  "set_prop k v [] = [(k, v)]"
| "set_prop k v ((k', v') # kvs) =
     (if k' = k then (k, v) # kvs else (k', v') # set_prop k v kvs)"

subsection \<open>Tokens\<close>

datatype token =
    TLBrace | TRBrace | TLBrack | TRBrack | TColon | TComma
  | TStr jsstring | TNum int int | TTrue | TFalse | TNull

definition is_ws :: "unit16 \<Rightarrow> bool" where
  "is_ws c \<longleftrightarrow> c = unit_of (CHR 0x09) \<or> c = unit_of (CHR 0x0A) \<or> c = unit_of (CHR 0x0D) \<or> c = unit_of (CHR 0x20)"

definition is_digit :: "unit16 \<Rightarrow> bool" where
  "is_digit c \<longleftrightarrow> 48 \<le> unat c \<and> unat c \<le> 57"

definition digit_val :: "unit16 \<Rightarrow> nat" where
  "digit_val c = unat c - 48"

definition hex_val :: "unit16 \<Rightarrow> nat option" where
  "hex_val c =
     (let n = unat c in
      if 48 \<le> n \<and> n \<le> 57 then Some (n - 48)
      else if 65 \<le> n \<and> n \<le> 70 then Some (n - 55)
      else if 97 \<le> n \<and> n \<le> 102 then Some (n - 87)
      else None)"

definition hex4 :: "unit16 \<Rightarrow> unit16 \<Rightarrow> unit16 \<Rightarrow> unit16 \<Rightarrow> nat option" where
  "hex4 a b c d =
     (case (hex_val a, hex_val b, hex_val c, hex_val d) of
        (Some w, Some x, Some y, Some z) \<Rightarrow> Some (((w * 16 + x) * 16 + y) * 16 + z)
      | _ \<Rightarrow> None)"

definition unescape :: "unit16 \<Rightarrow> unit16 option" where
  "unescape e =
     (if e = unit_of (CHR 0x22) then Some (unit_of (CHR 0x22))
      else if e = unit_of (CHR 0x5C) then Some (unit_of (CHR 0x5C))
      else if e = unit_of (CHR ''/'') then Some (unit_of (CHR ''/''))
      else if e = unit_of (CHR ''b'') then Some (unit_of (CHR 0x08))
      else if e = unit_of (CHR ''f'') then Some (unit_of (CHR 0x0C))
      else if e = unit_of (CHR ''n'') then Some (unit_of (CHR 0x0A))
      else if e = unit_of (CHR ''r'') then Some (unit_of (CHR 0x0D))
      else if e = unit_of (CHR ''t'') then Some (unit_of (CHR 0x09))
      else None)"

definition cons_fst :: "'a \<Rightarrow> ('a list \<times> 'b) option \<Rightarrow> ('a list \<times> 'b) option" where
  "cons_fst c r = (case r of None \<Rightarrow> None | Some (s, rest) \<Rightarrow> Some (c # s, rest))"

text \<open>The characters of a string literal after its opening quote, up to the closing one:
  the decoded string and the text that follows.\<close>

fun lex_string :: "jsstring \<Rightarrow> (jsstring \<times> jsstring) option" where
  "lex_string [] = None"
| "lex_string (c # cs) =
     (if c = unit_of (CHR 0x22) then Some ([], cs)
      else if c = unit_of (CHR 0x5C) then
        (case cs of
           [] \<Rightarrow> None
         | e # cs' \<Rightarrow>
             if e = unit_of (CHR ''u'') then
               (case cs' of
                  h1 # h2 # h3 # h4 # cs'' \<Rightarrow>
                    (case hex4 h1 h2 h3 h4 of
                       None \<Rightarrow> None
                     | Some n \<Rightarrow> cons_fst (of_nat n) (lex_string cs''))
                | _ \<Rightarrow> None)
             else
               (case unescape e of
                  None \<Rightarrow> None
                | Some d \<Rightarrow> cons_fst d (lex_string cs')))
      else if unat c < 32 then None
      else cons_fst c (lex_string cs))"

definition digits_val :: "jsstring \<Rightarrow> nat" where
  "digits_val ds = foldl (\<lambda>n c. 10 * n + digit_val c) 0 ds"

text \<open>A number literal: \<open>-? (0 | [1-9][0-9]*) (. [0-9]+)? ([eE] [+-]? [0-9]+)?\<close>,
  read part by part. Each part returns what it read and the text that follows.\<close>

definition lex_sign :: "jsstring \<Rightarrow> bool \<times> jsstring" where
  "lex_sign cs =
     (case cs of
        [] \<Rightarrow> (False, cs)
      | c # r \<Rightarrow> if c = unit_of (CHR ''-'') then (True, r) else (False, cs))"

definition lex_int :: "jsstring \<Rightarrow> (jsstring \<times> jsstring) option" where
  "lex_int cs =
     (let ip = takeWhile is_digit cs in
      if ip = [] \<or> (1 < length ip \<and> hd ip = unit_of (CHR ''0'')) then None
      else Some (ip, dropWhile is_digit cs))"

definition lex_frac :: "jsstring \<Rightarrow> (jsstring \<times> jsstring) option" where
  "lex_frac cs =
     (case cs of
        [] \<Rightarrow> Some ([], cs)
      | c # r \<Rightarrow>
          if c = unit_of (CHR ''.'') then
            (if takeWhile is_digit r = [] then None
             else Some (takeWhile is_digit r, dropWhile is_digit r))
          else Some ([], cs))"

definition lex_exp_sign :: "jsstring \<Rightarrow> bool \<times> jsstring" where
  "lex_exp_sign cs =
     (case cs of
        [] \<Rightarrow> (False, cs)
      | c # r \<Rightarrow>
          if c = unit_of (CHR ''-'') then (True, r)
          else if c = unit_of (CHR ''+'') then (False, r)
          else (False, cs))"

definition lex_exp :: "jsstring \<Rightarrow> (int \<times> jsstring) option" where
  "lex_exp cs =
     (case cs of
        [] \<Rightarrow> Some (0, cs)
      | c # r \<Rightarrow>
          if c = unit_of (CHR ''e'') \<or> c = unit_of (CHR ''E'') then
            (case lex_exp_sign r of
               (eneg, r') \<Rightarrow>
                 if takeWhile is_digit r' = [] then None
                 else Some ((if eneg then - int (digits_val (takeWhile is_digit r'))
                             else int (digits_val (takeWhile is_digit r'))),
                            dropWhile is_digit r'))
          else Some (0, cs))"

definition lex_number :: "jsstring \<Rightarrow> (token \<times> jsstring) option" where
  "lex_number cs =
     (case lex_sign cs of
        (neg, cs1) \<Rightarrow>
          (case lex_int cs1 of
             None \<Rightarrow> None
           | Some (ip, cs2) \<Rightarrow>
               (case lex_frac cs2 of
                  None \<Rightarrow> None
                | Some (fp, cs3) \<Rightarrow>
                    (case lex_exp cs3 of
                       None \<Rightarrow> None
                     | Some (ex, cs4) \<Rightarrow>
                         Some (TNum ((if neg then - 1 else 1) * int (digits_val (ip @ fp)))
                                    (ex - int (length fp)), cs4)))))"

text \<open>Every part of the lexer leaves a shorter text; the tokenizer's recursion rests on it.\<close>

lemma cons_fst_Some:
  "cons_fst c r = Some (s, rest) \<Longrightarrow> \<exists>s'. r = Some (s', rest) \<and> s = c # s'"
  by (cases r) (auto simp: cons_fst_def)

lemma lex_string_shorter:
  "lex_string cs = Some (s, rest) \<Longrightarrow> length rest < length cs"
proof (induction cs arbitrary: s rule: lex_string.induct)
  case 1
  then show ?case by simp
next
  case (2 c cs)
  then show ?case
    by (fastforce split: if_splits option.splits list.splits dest: cons_fst_Some)
qed

lemma lex_sign_shorter: "lex_sign cs = (b, r) \<Longrightarrow> length r \<le> length cs"
  by (auto simp: lex_sign_def split: list.splits if_splits)

lemma lex_exp_sign_shorter: "lex_exp_sign cs = (b, r) \<Longrightarrow> length r \<le> length cs"
  by (auto simp: lex_exp_sign_def split: list.splits if_splits)

lemma dropWhile_shorter: "takeWhile P xs \<noteq> [] \<Longrightarrow> length (dropWhile P xs) < length xs"
  by (cases xs) (auto simp: length_dropWhile_le less_Suc_eq_le split: if_splits)

lemma lex_int_shorter: "lex_int cs = Some (ip, r) \<Longrightarrow> length r < length cs"
  by (auto simp: lex_int_def Let_def dropWhile_shorter split: if_splits)

lemma lex_frac_shorter: "lex_frac cs = Some (fp, r) \<Longrightarrow> length r \<le> length cs"
  by (auto simp: lex_frac_def le_Suc_eq length_dropWhile_le split: list.splits if_splits)

lemma lex_exp_shorter: "lex_exp cs = Some (ex, r) \<Longrightarrow> length r \<le> length cs"
  apply (auto simp: lex_exp_def split: list.splits if_splits prod.splits
      dest!: lex_exp_sign_shorter)
   apply (meson le_SucI le_trans length_dropWhile_le)+
  done

lemma lex_number_shorter:
  "lex_number cs = Some (t, rest) \<Longrightarrow> length rest < length cs"
  by (auto simp: lex_number_def split: prod.splits option.splits
      dest!: lex_sign_shorter lex_int_shorter lex_frac_shorter lex_exp_shorter)

definition cons_tok :: "token \<Rightarrow> token list option \<Rightarrow> token list option" where
  "cons_tok t r = (case r of None \<Rightarrow> None | Some ts \<Rightarrow> Some (t # ts))"

text \<open>The tokenizer. \<open>None\<close> is a text that is no sequence of JSON tokens.\<close>

function lex :: "jsstring \<Rightarrow> token list option" where
  "lex [] = Some []"
| "lex (c # cs) =
     (if is_ws c then lex cs
      else if c = unit_of (CHR ''{'') then cons_tok TLBrace (lex cs)
      else if c = unit_of (CHR ''}'') then cons_tok TRBrace (lex cs)
      else if c = unit_of (CHR ''['') then cons_tok TLBrack (lex cs)
      else if c = unit_of (CHR '']'') then cons_tok TRBrack (lex cs)
      else if c = unit_of (CHR '':'') then cons_tok TColon (lex cs)
      else if c = unit_of (CHR '','') then cons_tok TComma (lex cs)
      else if c = unit_of (CHR 0x22) then
        (case lex_string cs of
           None \<Rightarrow> None
         | Some (s, rest) \<Rightarrow> cons_tok (TStr s) (lex rest))
      else if c = unit_of (CHR ''-'') \<or> is_digit c then
        (case lex_number (c # cs) of
           None \<Rightarrow> None
         | Some (t, rest) \<Rightarrow> cons_tok t (lex rest))
      else if take 3 cs = (lit ''rue'') \<and> c = unit_of (CHR ''t'') then cons_tok TTrue (lex (drop 3 cs))
      else if take 4 cs = (lit ''alse'') \<and> c = unit_of (CHR ''f'') then cons_tok TFalse (lex (drop 4 cs))
      else if take 3 cs = (lit ''ull'') \<and> c = unit_of (CHR ''n'') then cons_tok TNull (lex (drop 3 cs))
      else None)"
  by pat_completeness auto
termination
proof (relation "measure length")
  show "wf (measure length)" by simp
next
  fix c cs x2 x y
  assume "lex_string cs = Some x2" "(x, y) = x2"
  then show "(y, c # cs) \<in> measure length"
    using lex_string_shorter [of cs x y] by simp
next
  fix c cs x2 x y
  assume "lex_number (c # cs) = Some x2" "(x, y) = x2"
  then show "(y, c # cs) \<in> measure length"
    using lex_number_shorter [of "c # cs" x y] by simp
qed simp_all

subsection \<open>Values from tokens\<close>

text \<open>
  The grammar of JSON values, read by a machine with a stack of the arrays and objects
  that are open: \<open>InArr\<close> holds the elements read so far, \<open>InObj\<close> the members read so
  far and the key whose value is being read.
\<close>

datatype ctx = InArr "jsval list" | InObj "(jsstring \<times> jsval) list" jsstring

fun want_value :: "ctx list \<Rightarrow> token list \<Rightarrow> jsval option"
  and have_value :: "jsval \<Rightarrow> ctx list \<Rightarrow> token list \<Rightarrow> jsval option" where
  "want_value st [] = None"
| "want_value st (t # ts) =
     (case t of
        TStr s \<Rightarrow> have_value (Str s) st ts
      | TNum m e \<Rightarrow> have_value (Num m e) st ts
      | TTrue \<Rightarrow> have_value (Bool True) st ts
      | TFalse \<Rightarrow> have_value (Bool False) st ts
      | TNull \<Rightarrow> have_value Null st ts
      | TLBrack \<Rightarrow>
          (case ts of
             TRBrack # ts' \<Rightarrow> have_value (Arr []) st ts'
           | _ \<Rightarrow> want_value (InArr [] # st) ts)
      | TLBrace \<Rightarrow>
          (case ts of
             TRBrace # ts' \<Rightarrow> have_value (Obj []) st ts'
           | TStr k # TColon # ts' \<Rightarrow> want_value (InObj [] k # st) ts'
           | _ \<Rightarrow> None)
      | _ \<Rightarrow> None)"
| "have_value v [] ts = (if ts = [] then Some v else None)"
| "have_value v (InArr acc # st) ts =
     (case ts of
        TComma # ts' \<Rightarrow> want_value (InArr (acc @ [v]) # st) ts'
      | TRBrack # ts' \<Rightarrow> have_value (Arr (acc @ [v])) st ts'
      | _ \<Rightarrow> None)"
| "have_value v (InObj acc k # st) ts =
     (case ts of
        TComma # TStr k' # TColon # ts' \<Rightarrow> want_value (InObj (set_prop k v acc) k' # st) ts'
      | TRBrace # ts' \<Rightarrow> have_value (Obj (set_prop k v acc)) st ts'
      | _ \<Rightarrow> None)"

text \<open>\<open>JSON.parse\<close>: the value of the text, or \<open>None\<close> where the platform throws a
  SyntaxError.\<close>

definition JSON_parse :: "jsstring \<Rightarrow> jsval option" where
  "JSON_parse s = (case lex s of None \<Rightarrow> None | Some ts \<Rightarrow> want_value [] ts)"


subsection \<open>Serialization\<close>

text \<open>
  \<open>JSON.stringify\<close> is applied by the program to four shapes only: a chat envelope, a
  file-meta envelope, the file-end envelope and the local session description. They are
  built from \<open>QuoteJSONString\<close> for strings and from the decimal digits of a size in bytes
  (an integer below \<open>10^21\<close>, which \<open>Number::toString\<close> prints without an exponent).

  \<open>QuoteJSONString\<close> works on code points: a leading surrogate followed by a trailing one
  is one code point and is copied; a surrogate on its own is written as an escape, as a
  control character without a short escape is.
\<close>

definition hex_digit :: "nat \<Rightarrow> unit16" where
  "hex_digit n = (if n < 10 then of_nat (48 + n) else of_nat (87 + n))"

definition is_high :: "unit16 \<Rightarrow> bool" where
  "is_high c \<longleftrightarrow> 0xD800 \<le> unat c \<and> unat c \<le> 0xDBFF"

definition is_low :: "unit16 \<Rightarrow> bool" where
  "is_low c \<longleftrightarrow> 0xDC00 \<le> unat c \<and> unat c \<le> 0xDFFF"

definition unicode_escape :: "unit16 \<Rightarrow> jsstring" where
  "unicode_escape c =
     [unit_of (CHR 0x5C), unit_of (CHR ''u''),
      hex_digit (unat c div 4096), hex_digit (unat c div 256 mod 16),
      hex_digit (unat c div 16 mod 16), hex_digit (unat c mod 16)]"

definition quote_char :: "unit16 \<Rightarrow> jsstring" where
  "quote_char c =
     (if c = unit_of (CHR 0x08) then [unit_of (CHR 0x5C), unit_of (CHR ''b'')]
      else if c = unit_of (CHR 0x09) then [unit_of (CHR 0x5C), unit_of (CHR ''t'')]
      else if c = unit_of (CHR 0x0A) then [unit_of (CHR 0x5C), unit_of (CHR ''n'')]
      else if c = unit_of (CHR 0x0C) then [unit_of (CHR 0x5C), unit_of (CHR ''f'')]
      else if c = unit_of (CHR 0x0D) then [unit_of (CHR 0x5C), unit_of (CHR ''r'')]
      else if c = unit_of (CHR 0x22) then [unit_of (CHR 0x5C), unit_of (CHR 0x22)]
      else if c = unit_of (CHR 0x5C) then [unit_of (CHR 0x5C), unit_of (CHR 0x5C)]
      else if unat c < 32 \<or> is_high c \<or> is_low c then unicode_escape c
      else [c])"

fun quote_units :: "jsstring \<Rightarrow> jsstring" where
  "quote_units (c # d # cs) =
     (if is_high c \<and> is_low d then c # d # quote_units cs
      else quote_char c @ quote_units (d # cs))"
| "quote_units [c] = quote_char c"
| "quote_units [] = []"

definition quote :: "jsstring \<Rightarrow> jsstring" where
  "quote s = [unit_of (CHR 0x22)] @ quote_units s @ [unit_of (CHR 0x22)]"

function show_nat :: "nat \<Rightarrow> jsstring" where
  "show_nat n =
     (if n < 10 then [of_nat (48 + n)]
      else show_nat (n div 10) @ [of_nat (48 + n mod 10)])"
  by pat_completeness auto
termination
  by (relation "measure id") auto

declare show_nat.simps [simp del]

definition stringify_chat :: "jsstring \<Rightarrow> jsstring" where
  \<open>stringify_chat txt = lit ''{"t":"chat","text":'' @ quote txt @ lit ''}''\<close>

definition stringify_file_meta :: "jsstring \<Rightarrow> nat \<Rightarrow> jsstring \<Rightarrow> jsstring" where
  \<open>stringify_file_meta nm sz ty =
     lit ''{"t":"file-meta","meta":{"name":'' @ quote nm @ lit '',"size":'' @ show_nat sz @
     lit '',"type":'' @ quote ty @ lit ''}}''\<close>

definition stringify_file_end :: jsstring where
  \<open>stringify_file_end = lit ''{"t":"file-end"}''\<close>

text \<open>The values these texts denote.\<close>

definition chat_envelope :: "jsstring \<Rightarrow> jsval" where
  "chat_envelope txt = Obj [(lit ''t'', Str (lit ''chat'')), (lit ''text'', Str txt)]"

definition file_meta_envelope :: "jsstring \<Rightarrow> nat \<Rightarrow> jsstring \<Rightarrow> jsval" where
  "file_meta_envelope nm sz ty =
     Obj [(lit ''t'', Str (lit ''file-meta'')),
          (lit ''meta'', Obj [(lit ''name'', Str nm), (lit ''size'', Num (int sz) 0),
                             (lit ''type'', Str ty)])]"

definition file_end_envelope :: jsval where
  "file_end_envelope = Obj [(lit ''t'', Str (lit ''file-end''))]"


section \<open>The session of \<open>LocalMesh.tsx\<close>\<close>

type_synonym byte = "8 word"

datatype origin = Me | Peer

record ChatMessage =
  msg_from :: origin
  msg_text :: jsval
  msg_at :: nat

text \<open>The entry of \<open>sendingRef\<close>: the chunks received so far and the announced size.\<close>

record transfer =
  buffer :: "byte list list"
  size' :: jsval

text \<open>
  What \<open>ev.data\<close> of a channel message can be: a string for a text frame; for a binary
  frame an \<open>ArrayBuffer\<close> when the channel's \<open>binaryType\<close> is \<open>arraybuffer\<close> (the page never
  sets it) and a \<open>Blob\<close> when it is \<open>blob\<close>. \<open>ch.send\<close> is given a string or an
  \<open>ArrayBuffer\<close>.
\<close>

datatype frame = Text jsstring | ArrayBuffer "byte list" | Blob "byte list"

datatype ready_state = Connecting | Open | Closing | Closed

text \<open>The data channel: its \<open>readyState\<close> and the frames handed to \<open>send\<close>, in order.\<close>

record channel =
  readyState :: ready_state
  sent :: "frame list"

text \<open>The notifications of the page, by their place in the source.\<close>

datatype toast =
    ToastConnecte | ToastConnexionPerdue | ToastCanalPret | ToastFichierRecu
  | ToastOffrePrete | ToastErreurOffre | ToastReponseAppliquee | ToastReponseInvalide
  | ToastReponsePrete | ToastOffreInvalide | ToastFichierEnvoye

text \<open>A download started by the receiver: the \<open>Date.now()\<close> of its name \<open>recu-...\<close> and the
  bytes of the blob.\<close>

record download =
  stamp :: nat
  content :: "byte list"

datatype sdp_type = Offer | Answer | Pranswer | Rollback

record desc =
  desc_type :: sdp_type
  sdp :: jsstring

datatype ice_gathering = GatheringNew | Gathering | Complete

text \<open>
  The calls the handlers make on the peer connection and the gathering events it
  dispatches, in the order they happen. \<open>Encode\<close> is the call
  \<open>JSON.stringify(pc.localDescription)\<close>.
\<close>

datatype step =
    CreateDataChannel
  | CreateOffer
  | CreateAnswer
  | SetLocalDescription desc
  | SetRemoteDescription jsval
  | IceGatheringStateChange ice_gathering
  | Encode "desc option"

record pc =
  iceGatheringState :: ice_gathering
  localDescription :: "desc option"
  trace :: "step list"

record session =
  pc :: pc
  dataChannelRef :: "channel option"
  localOffer :: jsstring
  remoteAnswer :: jsstring
  remoteOffer :: jsstring
  localAnswer :: jsstring
  connected :: bool
  messages :: "ChatMessage list"
  outgoingText :: jsstring
  sendingRef :: "transfer option"
  toasts :: "toast list"
  downloads :: "download list"
  console :: "exn list"

subsection \<open>Receiving: \<open>ch.onmessage\<close>\<close>

text \<open>The body of the \<open>try\<close> block for a text frame; \<open>Inl\<close> is the exception it throws.
  \<open>now\<close> is the value of \<open>Date.now()\<close>.\<close>

definition try_text :: "nat \<Rightarrow> jsstring \<Rightarrow> session \<Rightarrow> exn + session" where
  "try_text now data s =
     (case JSON_parse data of
        None \<Rightarrow> Inl SyntaxError
      | Some msg \<Rightarrow>
          (case get_prop msg (lit ''t'') of
             Inl e \<Rightarrow> Inl e
           | Inr t \<Rightarrow>
               if t = Str (lit ''chat'') then
                 (case get_prop msg (lit ''text'') of
                    Inl e \<Rightarrow> Inl e
                  | Inr txt \<Rightarrow>
                      Inr (s\<lparr>messages := messages s @
                             [\<lparr>msg_from = Peer, msg_text = txt, msg_at = now\<rparr>]\<rparr>))
               else if t = Str (lit ''file-meta'') then
                 (case get_prop msg (lit ''meta'') of
                    Inl e \<Rightarrow> Inl e
                  | Inr meta \<Rightarrow>
                      (case get_prop meta (lit ''size'') of
                         Inl e \<Rightarrow> Inl e
                       | Inr sz \<Rightarrow> Inr (s\<lparr>sendingRef := Some \<lparr>buffer = [], size' = sz\<rparr>\<rparr>)))
               else if t = Str (lit ''file-end'') then
                 (case sendingRef s of
                    None \<Rightarrow> Inr s
                  | Some entry \<Rightarrow>
                      Inr (s\<lparr>downloads := downloads s @
                               [\<lparr>stamp = now, content = concat (buffer entry)\<rparr>],
                             toasts := toasts s @ [ToastFichierRecu],
                             sendingRef := None\<rparr>))
               else Inr s))"

definition onmessage :: "nat \<Rightarrow> frame \<Rightarrow> session \<Rightarrow> session" where
  "onmessage now data s =
     (case data of
        Text d \<Rightarrow>
          (case try_text now d s of
             Inr s' \<Rightarrow> s'
           | Inl e \<Rightarrow>
               s\<lparr>messages := messages s @
                    [\<lparr>msg_from = Peer, msg_text = Str d, msg_at = now\<rparr>]\<rparr>)
      | ArrayBuffer b \<Rightarrow>
          (let entry = (case sendingRef s of
                          None \<Rightarrow> \<lparr>buffer = [], size' = Num 0 0\<rparr>
                        | Some e \<Rightarrow> e)
           in s\<lparr>sendingRef := Some (entry\<lparr>buffer := buffer entry @ [b]\<rparr>)\<rparr>)
      | Blob b \<Rightarrow> s)"

text \<open>The frames the channel delivers, each with the \<open>Date.now()\<close> of its handling, are
  handled one after the other.\<close>

fun receive :: "(nat \<times> frame) list \<Rightarrow> session \<Rightarrow> session" where
  "receive [] s = s"
| "receive ((now, f) # fs) s = receive fs (onmessage now f s)"

subsection \<open>Sending: \<open>sendChat\<close> and \<open>sendFile\<close>\<close>

definition ch_send :: "frame \<Rightarrow> channel \<Rightarrow> channel" where
  "ch_send f ch = ch\<lparr>sent := sent ch @ [f]\<rparr>"

text \<open>\<open>String.prototype.trim\<close> removes white space and line terminators: TAB, LF, VT, FF,
  CR, the space separators of Unicode (all in the basic plane) and U+FEFF, LS and PS.\<close>

definition is_space :: "unit16 \<Rightarrow> bool" where
  "is_space c \<longleftrightarrow>
     unat c \<in> set [0x09, 0x0A, 0x0B, 0x0C, 0x0D, 0x20, 0xA0, 0x1680, 0x2028, 0x2029,
                 0x202F, 0x205F, 0x3000, 0xFEFF] \<or>
     (0x2000 \<le> unat c \<and> unat c \<le> 0x200A)"

definition trim :: "jsstring \<Rightarrow> jsstring" where
  "trim s = rev (dropWhile is_space (rev (dropWhile is_space s)))"

definition sendChat :: "nat \<Rightarrow> session \<Rightarrow> session" where
  "sendChat now s =
     (case dataChannelRef s of
        None \<Rightarrow> s
      | Some ch \<Rightarrow>
          if readyState ch \<noteq> Open then s
          else if trim (outgoingText s) = [] then s
          else
            s\<lparr>dataChannelRef := Some (ch_send (Text (stringify_chat (outgoingText s))) ch),
              messages := messages s @
                [\<lparr>msg_from = Me, msg_text = Str (outgoingText s), msg_at = now\<rparr>],
              outgoingText := []\<rparr>)"

text \<open>The \<open>onChange\<close> of the chat input.\<close>

definition setOutgoingText :: "jsstring \<Rightarrow> session \<Rightarrow> session" where
  "setOutgoingText v s = s\<lparr>outgoingText := v\<rparr>"

record File =
  file_name :: jsstring
  file_type :: jsstring
  file_bytes :: "byte list"

definition chunkSize :: nat where
  "chunkSize = 16 * 1024"

text \<open>\<open>buf.slice(b, e)\<close> for \<open>0 \<le> b \<le> e\<close>: both ends are clamped to the length.\<close>

definition array_slice :: "nat \<Rightarrow> nat \<Rightarrow> 'a list \<Rightarrow> 'a list" where
  "array_slice b e buf = take (min e (length buf) - min b (length buf)) (drop (min b (length buf)) buf)"

text \<open>The loop \<open>for (let i = 0; i < buf.byteLength; i += chunkSize)\<close> from index \<open>i\<close> on.\<close>

function send_chunks :: "nat \<Rightarrow> byte list \<Rightarrow> channel \<Rightarrow> channel" where
  "send_chunks i buf ch =
     (if i < length buf then
        send_chunks (i + chunkSize) buf (ch_send (ArrayBuffer (array_slice i (i + chunkSize) buf)) ch)
      else ch)"
  by pat_completeness auto
termination
  by (relation "measure (\<lambda>(i, buf, ch). length buf - i)") (auto simp: chunkSize_def)

declare send_chunks.simps [simp del]

text \<open>
  \<open>sendFile\<close>, run to its end: the channel stays open and \<open>send\<close> does not throw while the
  loop yields between two chunks.
\<close>

definition sendFile :: "File option \<Rightarrow> session \<Rightarrow> session" where
  "sendFile fo s =
     (case fo of
        None \<Rightarrow> s
      | Some f \<Rightarrow>
          (case dataChannelRef s of
             None \<Rightarrow> s
           | Some ch \<Rightarrow>
               if readyState ch \<noteq> Open then s
               else
                 (let ch1 = ch_send (Text (stringify_file_meta (file_name f)
                                             (length (file_bytes f)) (file_type f))) ch;
                      ch2 = send_chunks 0 (file_bytes f) ch1;
                      ch3 = ch_send (Text stringify_file_end) ch2
                  in s\<lparr>dataChannelRef := Some ch3, toasts := toasts s @ [ToastFichierEnvoye]\<rparr>)))"

subsection \<open>Signaling: offer and answer by copy and paste\<close>

text \<open>
  \<open>pc.localDescription\<close> is an \<open>RTCSessionDescription\<close>, or \<open>null\<close>. Its \<open>toJSON\<close> gives the
  dictionary of its \<open>type\<close> and \<open>sdp\<close>, which \<open>JSON.stringify\<close> writes; the peer connection
  reads the same two members from the value handed to \<open>setRemoteDescription\<close>.
\<close>

definition type_name :: "sdp_type \<Rightarrow> jsstring" where
  "type_name t =
     (case t of Offer \<Rightarrow> (lit ''offer'') | Answer \<Rightarrow> (lit ''answer'')
              | Pranswer \<Rightarrow> (lit ''pranswer'') | Rollback \<Rightarrow> (lit ''rollback''))"

definition desc_init :: "desc \<Rightarrow> jsval" where
  "desc_init d = Obj [((lit ''type''), Str (type_name (desc_type d))), ((lit ''sdp''), Str (sdp d))]"

definition stringify_desc :: "desc option \<Rightarrow> jsstring" where
  \<open>stringify_desc dopt =
     (case dopt of
        None \<Rightarrow> (lit ''null'')
      | Some d \<Rightarrow>
          (lit ''{"type":'') @ quote (type_name (desc_type d)) @ (lit '',"sdp":'') @ quote (sdp d) @ (lit ''}''))\<close>

definition type_of_name :: "jsstring \<Rightarrow> sdp_type option" where
  "type_of_name n =
     (if n = (lit ''offer'') then Some Offer
      else if n = (lit ''answer'') then Some Answer
      else if n = (lit ''pranswer'') then Some Pranswer
      else if n = (lit ''rollback'') then Some Rollback
      else None)"

definition read_desc :: "jsval \<Rightarrow> desc option" where
  "read_desc v =
     (case v of
        Obj kvs \<Rightarrow>
          (case (map_of kvs (lit ''type''), map_of kvs (lit ''sdp'')) of
             (Some (Str t), Some (Str sd)) \<Rightarrow>
               (case type_of_name t of
                  None \<Rightarrow> None
                | Some ty \<Rightarrow> Some \<lparr>desc_type = ty, sdp = sd\<rparr>)
           | _ \<Rightarrow> None)
      | _ \<Rightarrow> None)"

text \<open>
  The peer connection is the platform's. What it answers to a handler is an input of the
  model: the outcome of each of its promises, and the \<open>icegatheringstatechange\<close> events it
  dispatches, each with the gathering state and the local description it then has.
\<close>

type_synonym ice_event = "ice_gathering \<times> desc option"

record script =
  set_remote_result :: "exn + unit"
  create_result :: "exn + desc"
  set_local_result :: "exn + ice_event list"
  gathering_events :: "ice_event list"

definition log :: "step \<Rightarrow> pc \<Rightarrow> pc" where
  "log st p = p\<lparr>trace := trace p @ [st]\<rparr>"

definition dispatch :: "ice_event \<Rightarrow> pc \<Rightarrow> pc" where
  "dispatch ev p =
     log (IceGatheringStateChange (fst ev))
       (p\<lparr>iceGatheringState := fst ev, localDescription := snd ev\<rparr>)"

text \<open>An \<open>async\<close> handler either runs to its end or stays suspended at an \<open>await\<close> whose
  promise never resolves; both leave a session behind.\<close>

datatype 'a async = Settled 'a | Suspended 'a

fun the_state :: "'a async \<Rightarrow> 'a" where
  "the_state (Settled s) = s"
| "the_state (Suspended s) = s"

text \<open>The listener \<open>check\<close> of \<open>waitForIceGathering\<close>, run on the events that follow: it
  resolves the promise at the first event that finds the state \<open>complete\<close>.\<close>

fun await_complete :: "ice_event list \<Rightarrow> pc \<Rightarrow> pc async" where
  "await_complete [] p = Suspended p"
| "await_complete (ev # evs) p =
     (if iceGatheringState (dispatch ev p) = Complete then Settled (dispatch ev p)
      else await_complete evs (dispatch ev p))"

definition waitForIceGathering :: "ice_event list \<Rightarrow> pc \<Rightarrow> pc async" where
  "waitForIceGathering evs p =
     (if iceGatheringState p = Complete then Settled p else await_complete evs p)"

definition createDataChannelIfNeeded :: "session \<Rightarrow> session" where
  "createDataChannelIfNeeded s =
     (case dataChannelRef s of
        None \<Rightarrow>
          s\<lparr>pc := log CreateDataChannel (pc s),
            dataChannelRef := Some \<lparr>readyState = Connecting, sent = []\<rparr>\<rparr>
      | Some ch \<Rightarrow> s)"

text \<open>The \<open>catch\<close> blocks: \<open>console.error(e)\<close> and the notification.\<close>

definition caught :: "exn \<Rightarrow> toast \<Rightarrow> session \<Rightarrow> session" where
  "caught e t s = s\<lparr>console := console s @ [e], toasts := toasts s @ [t]\<rparr>"

text \<open>The part shared by \<open>createOffer\<close> and \<open>acceptOffer\<close>: \<open>setLocalDescription\<close>,
  \<open>waitForIceGathering\<close>, then the encoding of \<open>pc.localDescription\<close>.\<close>

definition set_local_and_encode ::
  "script \<Rightarrow> desc \<Rightarrow> (jsstring \<Rightarrow> session \<Rightarrow> session) \<Rightarrow> toast \<Rightarrow> toast \<Rightarrow> session \<Rightarrow> session async" where
  "set_local_and_encode sc d set_text ready err s =
     (let s1 = s\<lparr>pc := log (SetLocalDescription d) (pc s)\<rparr> in
      case set_local_result sc of
        Inl e \<Rightarrow> Settled (caught e err s1)
      | Inr evs \<Rightarrow>
          (let p2 = fold dispatch evs ((pc s1)\<lparr>localDescription := Some d\<rparr>) in
           case waitForIceGathering (gathering_events sc) p2 of
             Suspended p3 \<Rightarrow> Suspended (s1\<lparr>pc := p3\<rparr>)
           | Settled p3 \<Rightarrow>
               Settled (set_text (stringify_desc (localDescription p3))
                          (s1\<lparr>pc := log (Encode (localDescription p3)) p3,
                             toasts := toasts s1 @ [ready]\<rparr>))))"

definition createOffer :: "script \<Rightarrow> session \<Rightarrow> session async" where
  "createOffer sc s =
     (let s1 = createDataChannelIfNeeded s;
          s2 = s1\<lparr>pc := log CreateOffer (pc s1)\<rparr>
      in case create_result sc of
           Inl e \<Rightarrow> Settled (caught e ToastErreurOffre s2)
         | Inr offer \<Rightarrow>
             set_local_and_encode sc offer (\<lambda>v s. s\<lparr>localOffer := v\<rparr>)
               ToastOffrePrete ToastErreurOffre s2)"

definition applyAnswer :: "script \<Rightarrow> session \<Rightarrow> session" where
  "applyAnswer sc s =
     (case JSON_parse (remoteAnswer s) of
        None \<Rightarrow> caught SyntaxError ToastReponseInvalide s
      | Some d \<Rightarrow>
          (let s1 = s\<lparr>pc := log (SetRemoteDescription d) (pc s)\<rparr> in
           case set_remote_result sc of
             Inl e \<Rightarrow> caught e ToastReponseInvalide s1
           | Inr u \<Rightarrow> s1\<lparr>toasts := toasts s1 @ [ToastReponseAppliquee]\<rparr>))"

definition acceptOffer :: "script \<Rightarrow> session \<Rightarrow> session async" where
  "acceptOffer sc s =
     (case JSON_parse (remoteOffer s) of
        None \<Rightarrow> Settled (caught SyntaxError ToastOffreInvalide s)
      | Some d \<Rightarrow>
          (let s1 = s\<lparr>pc := log (SetRemoteDescription d) (pc s)\<rparr> in
           case set_remote_result sc of
             Inl e \<Rightarrow> Settled (caught e ToastOffreInvalide s1)
           | Inr u \<Rightarrow>
               (let s2 = s1\<lparr>pc := log CreateAnswer (pc s1)\<rparr> in
                case create_result sc of
                  Inl e \<Rightarrow> Settled (caught e ToastOffreInvalide s2)
                | Inr answer \<Rightarrow>
                    set_local_and_encode sc answer (\<lambda>v s. s\<lparr>localAnswer := v\<rparr>)
                      ToastReponsePrete ToastOffreInvalide s2)))"

subsection \<open>The other handlers of the page\<close>

datatype connection_state =
  ConnNew | ConnConnecting | ConnConnected | ConnDisconnected | ConnFailed | ConnClosed

definition onconnectionstatechange :: "connection_state \<Rightarrow> session \<Rightarrow> session" where
  "onconnectionstatechange st s =
     (if st = ConnConnected then s\<lparr>connected := True, toasts := toasts s @ [ToastConnecte]\<rparr>
      else if st = ConnFailed \<or> st = ConnDisconnected then
        s\<lparr>connected := False, toasts := toasts s @ [ToastConnexionPerdue]\<rparr>
      else s)"

definition ondatachannel :: "channel \<Rightarrow> session \<Rightarrow> session" where
  "ondatachannel ch s = s\<lparr>dataChannelRef := Some ch\<rparr>"

text \<open>The channel opens: the platform sets its \<open>readyState\<close> and calls \<open>ch.onopen\<close>.\<close>

definition onopen :: "session \<Rightarrow> session" where
  "onopen s =
     s\<lparr>dataChannelRef := map_option (\<lambda>ch. ch\<lparr>readyState := Open\<rparr>) (dataChannelRef s),
       toasts := toasts s @ [ToastCanalPret]\<rparr>"

definition setRemoteAnswer :: "jsstring \<Rightarrow> session \<Rightarrow> session" where
  "setRemoteAnswer v s = s\<lparr>remoteAnswer := v\<rparr>"

definition setRemoteOffer :: "jsstring \<Rightarrow> session \<Rightarrow> session" where
  "setRemoteOffer v s = s\<lparr>remoteOffer := v\<rparr>"

text \<open>The state of the component when it mounts.\<close>

definition initial :: session where
  "initial =
     \<lparr>pc = \<lparr>iceGatheringState = GatheringNew, localDescription = None, trace = []\<rparr>,
      dataChannelRef = None, localOffer = [], remoteAnswer = [], remoteOffer = [],
      localAnswer = [], connected = False, messages = [], outgoingText = [],
      sendingRef = None, toasts = [], downloads = [], console = []\<rparr>"

text \<open>Every handler of the page that reads or writes the session, as one action on it.
  (Screen sharing, the remote video and the clipboard button touch none of its fields.)\<close>

datatype action =
    OnMessage nat frame
  | SendChat nat
  | SendFile "File option"
  | SetOutgoingText jsstring
  | SetRemoteAnswer jsstring
  | SetRemoteOffer jsstring
  | DoCreateOffer script
  | DoApplyAnswer script
  | DoAcceptOffer script
  | OnConnectionStateChange connection_state
  | OnDataChannel channel
  | OnOpen

fun run :: "action \<Rightarrow> session \<Rightarrow> session" where
  "run (OnMessage now f) s = onmessage now f s"
| "run (SendChat now) s = sendChat now s"
| "run (SendFile fo) s = sendFile fo s"
| "run (SetOutgoingText v) s = setOutgoingText v s"
| "run (SetRemoteAnswer v) s = setRemoteAnswer v s"
| "run (SetRemoteOffer v) s = setRemoteOffer v s"
| "run (DoCreateOffer sc) s = the_state (createOffer sc s)"
| "run (DoApplyAnswer sc) s = applyAnswer sc s"
| "run (DoAcceptOffer sc) s = the_state (acceptOffer sc s)"
| "run (OnConnectionStateChange st) s = onconnectionstatechange st s"
| "run (OnDataChannel ch) s = ondatachannel ch s"
| "run OnOpen s = onopen s"

text \<open>The gathering state after the events of a trace, from the state \<open>g\<close> before it.\<close>

fun gathering_after :: "ice_gathering \<Rightarrow> step list \<Rightarrow> ice_gathering" where
  "gathering_after g [] = g"
| "gathering_after g (IceGatheringStateChange g' # tr) = gathering_after g' tr"
| "gathering_after g (st # tr) = gathering_after g tr"

text \<open>The frames handed to \<open>send\<close> on the session's channel so far.\<close>

definition outbox :: "session \<Rightarrow> frame list" where
  "outbox s = (case dataChannelRef s of None \<Rightarrow> [] | Some ch \<Rightarrow> sent ch)"

subsection \<open>Rules on a trace\<close>

text \<open>\<open>encodes_when_complete g tr\<close>: from the gathering state \<open>g\<close>, every \<open>Encode\<close> of \<open>tr\<close>
  happens while the state is \<open>complete\<close>. \<open>offers_with_channel c tr\<close>: every \<open>CreateOffer\<close>
  of \<open>tr\<close> happens while a data channel exists; \<open>c\<close> says whether one exists before \<open>tr\<close>.\<close>

fun encodes_when_complete :: "ice_gathering \<Rightarrow> step list \<Rightarrow> bool" where
  "encodes_when_complete g [] = True"
| "encodes_when_complete g (IceGatheringStateChange g' # tr) = encodes_when_complete g' tr"
| "encodes_when_complete g (Encode d # tr) = (g = Complete \<and> encodes_when_complete g tr)"
| "encodes_when_complete g (st # tr) = encodes_when_complete g tr"

fun offers_with_channel :: "bool \<Rightarrow> step list \<Rightarrow> bool" where
  "offers_with_channel c [] = True"
| "offers_with_channel c (CreateDataChannel # tr) = offers_with_channel True tr"
| "offers_with_channel c (CreateOffer # tr) = (c \<and> offers_with_channel c tr)"
| "offers_with_channel c (st # tr) = offers_with_channel c tr"

subsection \<open>Sample inputs\<close>

definition open_session :: session where
  "open_session = initial\<lparr>dataChannelRef := Some \<lparr>readyState = Open, sent = []\<rparr>\<rparr>"



definition sample_desc :: "jsstring \<Rightarrow> desc" where
  "sample_desc sd = \<lparr>desc_type = Offer, sdp = sd\<rparr>"

definition sample_script :: script where
  "sample_script =
     \<lparr>set_remote_result = Inr (),
      create_result = Inr (sample_desc (lit ''v=0'')),
      set_local_result = Inr [(Gathering, Some (sample_desc (lit ''v=0'')))],
      gathering_events = [(Gathering, Some (sample_desc (lit ''v=0 a''))),
                          (Complete, Some (sample_desc (lit ''v=0 a b''))),
                          (Complete, Some (sample_desc (lit ''late'')))]\<rparr>"


section \<open>What \<open>JSON.parse\<close> reads back from the texts the program writes\<close>

subsection \<open>Code units\<close>

lemma of_char_less_256: "(of_char c :: nat) < 256"
proof -
  have "(of_char c :: nat) mod 256 < 256" by simp
  then show ?thesis by (simp only: of_char_mod_256)
qed

lemma unat_of_nat16: "n < 65536 \<Longrightarrow> unat (of_nat n :: unit16) = n"
  by (simp add: unat_of_nat)

lemma unat_less16: "unat (w :: unit16) < 65536"
  using unsigned_less [of w, where ?'a = nat] by simp

lemma unat_unit_of [simp]: "unat (unit_of c) = of_char c"
proof -
  have "(of_char c :: nat) < 65536"
    by (rule less_trans [OF of_char_less_256]) simp
  then show ?thesis by (simp only: unit_of_def unat_of_nat16)
qed

lemma unit_of_eq_iff [simp]: "unit_of a = unit_of b \<longleftrightarrow> a = b"
proof
  assume "unit_of a = unit_of b"
  then have "unat (unit_of a) = unat (unit_of b)" by simp
  then have "(of_char a :: nat) = of_char b" by simp
  then show "a = b" by simp
qed simp

lemma lit_Nil: "lit [] = []"
  by (simp add: lit_def)

lemma lit_Cons: "lit (c # cs) = unit_of c # lit cs"
  by (simp add: lit_def)

lemma lit_eq_Nil_iff [simp]: "lit s = [] \<longleftrightarrow> s = []"
  by (simp add: lit_def)

lemma lit_eq_iff [simp]: "lit a = lit b \<longleftrightarrow> a = b"
proof -
  have "inj unit_of" by (rule injI) simp
  then show ?thesis by (simp add: lit_def inj_map_eq_map)
qed

lemma beyond_latin1: "256 \<le> unat c \<Longrightarrow> c \<noteq> unit_of x"
proof
  assume "256 \<le> unat c" and "c = unit_of x"
  then have "256 \<le> (of_char x :: nat)" by simp
  with of_char_less_256 [of x] show False by arith
qed

lemma unit_of_neq_beyond: "256 \<le> unat w \<Longrightarrow> unit_of c = w \<longleftrightarrow> False"
  using beyond_latin1 [of w c] by auto

lemma beyond_neq_unit_of: "256 \<le> unat w \<Longrightarrow> w = unit_of c \<longleftrightarrow> False"
  using beyond_latin1 [of w c] by auto

text \<open>The rules that run the parser on a literal text.\<close>

lemmas eval_json = JSON_parse_def lit_Nil lit_Cons is_ws_def is_digit_def cons_tok_def
  cons_fst_def hex4_def hex_val_def unescape_def unit_of_neq_beyond beyond_neq_unit_of
  lex_number_def lex_sign_def lex_int_def lex_frac_def lex_exp_def digits_val_def digit_val_def

subsection \<open>Strings\<close>

lemma hex_val_hex_digit: "n < 16 \<Longrightarrow> hex_val (hex_digit n) = Some n"
proof -
  assume n: "n < 16"
  show ?thesis
  proof (cases "n < 10")
    case True
    then have "unat (hex_digit n) = 48 + n"
      by (simp add: hex_digit_def unat_of_nat16 del: of_nat_add)
    with True show ?thesis by (simp add: hex_val_def)
  next
    case False
    with n have "unat (hex_digit n) = 87 + n"
      by (simp add: hex_digit_def unat_of_nat16 del: of_nat_add)
    with False n show ?thesis by (simp add: hex_val_def)
  qed
qed

lemma recombine:
  "((n div 4096 * 16 + n div 256 mod 16) * 16 + n div 16 mod 16) * 16 + n mod 16 = (n::nat)"
proof -
  have a: "n div 256 = n div 16 div 16" by (simp add: div_mult2_eq)
  have b: "n div 4096 = n div 16 div 16 div 16" by (simp add: div_mult2_eq)
  have c: "m div 16 * 16 + m mod 16 = m" for m :: nat by simp
  show ?thesis
    unfolding a b c by (simp only: c)
qed

lemma hex4_escape:
  "hex4 (hex_digit (unat c div 4096)) (hex_digit (unat c div 256 mod 16))
        (hex_digit (unat c div 16 mod 16)) (hex_digit (unat c mod 16)) = Some (unat c)"
  for c :: unit16
proof -
  have "unat c div 4096 < 16" using unat_less16 [of c] by simp
  then have a: "hex_val (hex_digit (unat c div 4096)) = Some (unat c div 4096)"
    by (rule hex_val_hex_digit)
  have b: "hex_val (hex_digit (unat c div 256 mod 16)) = Some (unat c div 256 mod 16)"
    by (rule hex_val_hex_digit) simp
  have c: "hex_val (hex_digit (unat c div 16 mod 16)) = Some (unat c div 16 mod 16)"
    by (rule hex_val_hex_digit) simp
  have d: "hex_val (hex_digit (unat c mod 16)) = Some (unat c mod 16)"
    by (rule hex_val_hex_digit) simp
  show ?thesis by (simp only: hex4_def a b c d prod.case option.case recombine)
qed

lemma lex_string_escape:
  "lex_string (unicode_escape c @ cs) = cons_fst c (lex_string cs)"
  by (simp add: unicode_escape_def hex4_escape)

lemma lex_string_plain:
  assumes "32 \<le> unat c" and "c \<noteq> unit_of (CHR 0x22)" and "c \<noteq> unit_of (CHR 0x5C)"
  shows "lex_string (c # cs) = cons_fst c (lex_string cs)"
  using assms by simp

lemma lex_string_quote_char:
  "lex_string (quote_char c @ cs) = cons_fst c (lex_string cs)"
proof (cases "c \<in> unit_of ` {CHR 0x08, CHR 0x09, CHR 0x0A, CHR 0x0C, CHR 0x0D, CHR 0x22, CHR 0x5C}")
  case True
  then show ?thesis
    by (auto simp: quote_char_def unescape_def)
next
  case False
  then have ne: "c \<noteq> unit_of (CHR 0x08)" "c \<noteq> unit_of (CHR 0x09)" "c \<noteq> unit_of (CHR 0x0A)"
    "c \<noteq> unit_of (CHR 0x0C)" "c \<noteq> unit_of (CHR 0x0D)" "c \<noteq> unit_of (CHR 0x22)"
    "c \<noteq> unit_of (CHR 0x5C)"
    by simp_all
  show ?thesis
  proof (cases "unat c < 32 \<or> is_high c \<or> is_low c")
    case True
    with ne have "quote_char c = unicode_escape c" by (simp add: quote_char_def)
    then show ?thesis by (simp only: lex_string_escape)
  next
    case False
    with ne have "quote_char c = [c]" by (simp add: quote_char_def)
    moreover have "lex_string (c # cs) = cons_fst c (lex_string cs)"
      using False ne(6,7) by (intro lex_string_plain) simp_all
    ultimately show ?thesis by simp
  qed
qed

lemma lex_string_surrogate:
  assumes "is_high c \<or> is_low c"
  shows "lex_string (c # cs) = cons_fst c (lex_string cs)"
proof -
  from assms have big: "256 \<le> unat c" by (auto simp: is_high_def is_low_def)
  then have "32 \<le> unat c" by simp
  moreover have "c \<noteq> unit_of (CHR 0x22)" "c \<noteq> unit_of (CHR 0x5C)"
    using big by (rule beyond_latin1)+
  ultimately show ?thesis by (rule lex_string_plain)
qed

lemma lex_string_quoted:
  "lex_string (quote_units s @ unit_of (CHR 0x22) # rest) = Some (s, rest)"
proof (induction s rule: quote_units.induct)
  case (1 c d cs)
  show ?case
  proof (cases "is_high c \<and> is_low d")
    case True
    have q: "quote_units (c # d # cs) = c # d # quote_units cs"
      using True by simp
    have "lex_string (c # d # quote_units cs @ unit_of (CHR 0x22) # rest) =
          cons_fst c (cons_fst d (lex_string (quote_units cs @ unit_of (CHR 0x22) # rest)))"
      using True by (simp only: lex_string_surrogate [of c] lex_string_surrogate [of d] simp_thms)
    also have "\<dots> = Some (c # d # cs, rest)"
      using "1.IH"(1) [OF True] by (simp add: cons_fst_def)
    finally show ?thesis by (simp only: q append_Cons)
  next
    case False
    have q: "quote_units (c # d # cs) = quote_char c @ quote_units (d # cs)"
      by (simp only: quote_units.simps False if_False)
    have "lex_string ((quote_char c @ quote_units (d # cs)) @ unit_of (CHR 0x22) # rest) =
          cons_fst c (lex_string (quote_units (d # cs) @ unit_of (CHR 0x22) # rest))"
      by (simp only: append_assoc lex_string_quote_char)
    also have "\<dots> = Some (c # d # cs, rest)"
      using "1.IH"(2) [OF False] by (simp add: cons_fst_def)
    finally show ?thesis by (simp only: q)
  qed
next
  case (2 c)
  show ?case
    using lex_string_quote_char [of c "unit_of (CHR 0x22) # rest"]
    by (simp add: cons_fst_def)
next
  case 3
  show ?case by simp
qed

lemma lex_quote: "lex (quote s @ rest) = cons_tok (TStr s) (lex rest)"
  by (simp add: quote_def lex_string_quoted is_ws_def)


lemma parse_desc:
  "JSON_parse (stringify_desc (Some d)) = Some (desc_init d)"
  by (simp add: lit_Nil lit_Cons JSON_parse_def stringify_desc_def desc_init_def lex_quote is_ws_def is_digit_def
      cons_tok_def cons_fst_def)

lemma parse_no_desc: "JSON_parse (stringify_desc None) = Some Null"
  by (simp add: lit_Nil lit_Cons JSON_parse_def stringify_desc_def is_ws_def is_digit_def cons_tok_def)

lemma parse_chat: "JSON_parse (stringify_chat txt) = Some (chat_envelope txt)"
  by (simp add: lit_Nil lit_Cons JSON_parse_def stringify_chat_def chat_envelope_def lex_quote is_ws_def is_digit_def
      cons_tok_def cons_fst_def)

lemma type_of_name_type_name: "type_of_name (type_name t) = Some t"
  by (cases t) (simp_all add: type_of_name_def type_name_def)

lemma read_desc_init: "read_desc (desc_init d) = Some d"
  by (simp add: read_desc_def desc_init_def type_of_name_type_name)

subsection \<open>Numbers\<close>

lemma unat_digit: "d < 10 \<Longrightarrow> unat (of_nat (48 + d) :: unit16) = 48 + d"
  by (rule unat_of_nat16) simp

lemma is_digit_char_of: "d < 10 \<Longrightarrow> is_digit (of_nat (48 + d))"
  by (simp add: is_digit_def unat_digit del: of_nat_add)

lemma digit_val_char_of: "d < 10 \<Longrightarrow> digit_val (of_nat (48 + d)) = d"
  by (simp add: digit_val_def unat_digit del: of_nat_add)

lemma show_nat_digits: "\<forall>c \<in> set (show_nat n). is_digit c"
proof (induction n rule: show_nat.induct)
  case (1 n)
  show ?case
  proof (cases "n < 10")
    case True
    then show ?thesis by (simp add: show_nat.simps [of n] is_digit_char_of del: of_nat_add)
  next
    case False
    with 1 show ?thesis by (simp add: show_nat.simps [of n] is_digit_char_of del: of_nat_add)
  qed
qed

lemma show_nat_nonempty: "show_nat n \<noteq> []"
  by (simp add: show_nat.simps [of n])

lemma digits_val_snoc: "digits_val (ds @ [c]) = 10 * digits_val ds + digit_val c"
  by (simp add: digits_val_def)

lemma digits_val_show_nat: "digits_val (show_nat n) = n"
proof (induction n rule: show_nat.induct)
  case (1 n)
  show ?case
  proof (cases "n < 10")
    case True
    then show ?thesis
      by (simp add: show_nat.simps [of n] digits_val_def digit_val_char_of del: of_nat_add)
  next
    case False
    with 1 have "digits_val (show_nat (n div 10)) = n div 10" by simp
    with False show ?thesis
      by (simp add: show_nat.simps [of n] digits_val_snoc digit_val_char_of del: of_nat_add)
  qed
qed

lemma show_nat_leading: "hd (show_nat n) = unit_of (CHR ''0'') \<Longrightarrow> n = 0"
proof (induction n rule: show_nat.induct)
  case (1 n)
  show ?case
  proof (cases "n < 10")
    case True
    with "1.prems" have "(of_nat (48 + n) :: unit16) = unit_of (CHR ''0'')"
      by (simp add: show_nat.simps [of n] del: of_nat_add)
    then have "unat (of_nat (48 + n) :: unit16) = unat (unit_of (CHR ''0''))" by (rule arg_cong)
    with True show ?thesis by (simp only: unat_digit unat_unit_of) simp
  next
    case False
    with "1.prems" have "hd (show_nat (n div 10)) = unit_of (CHR ''0'')"
      by (simp add: show_nat.simps [of n] show_nat_nonempty)
    with "1.IH" False have "n div 10 = 0" by simp
    with False show ?thesis by simp
  qed
qed

lemma show_nat_zero: "show_nat 0 = lit ''0''"
  by (simp add: lit_Nil lit_Cons show_nat.simps [of 0] unit_of_def)

lemma lex_int_show_nat:
  assumes "\<not> is_digit c"
  shows "lex_int (show_nat n @ c # rest) = Some (show_nat n, c # rest)"
proof -
  have tw: "takeWhile is_digit (show_nat n @ c # rest) = show_nat n"
    using show_nat_digits [of n] assms by (simp add: takeWhile_append2)
  have dw: "dropWhile is_digit (show_nat n @ c # rest) = c # rest"
    using show_nat_digits [of n] assms by (simp add: dropWhile_append2)
  have "\<not> (1 < length (show_nat n) \<and> hd (show_nat n) = unit_of (CHR ''0''))"
    using show_nat_leading [of n] by (auto simp: show_nat_zero lit_Nil lit_Cons)
  then show ?thesis
    by (simp add: lex_int_def Let_def tw dw show_nat_nonempty)
qed

lemma lex_number_show_nat:
  "lex_number (show_nat n @ unit_of (CHR '','') # rest) = Some (TNum (int n) 0, unit_of (CHR '','') # rest)"
proof -
  obtain d ds where sn: "show_nat n = d # ds"
    using show_nat_nonempty [of n] by (cases "show_nat n") auto
  have "is_digit d" using show_nat_digits [of n] by (simp add: sn)
  then have "d \<noteq> unit_of (CHR ''-'')" by (auto simp: is_digit_def)
  then have sg: "lex_sign (show_nat n @ unit_of (CHR '','') # rest) = (False, show_nat n @ unit_of (CHR '','') # rest)"
    by (simp add: lex_sign_def sn)
  have nd: "\<not> is_digit (unit_of (CHR '',''))" by (simp add: is_digit_def)
  show ?thesis
    by (simp add: lex_number_def sg lex_int_show_nat [OF nd] lex_frac_def lex_exp_def
        digits_val_show_nat)
qed

lemma lex_show_nat:
  "lex (show_nat n @ unit_of (CHR '','') # rest) = cons_tok (TNum (int n) 0) (lex (unit_of (CHR '','') # rest))"
proof -
  obtain d ds where sn: "show_nat n = d # ds"
    using show_nat_nonempty [of n] by (cases "show_nat n") auto
  have dg: "is_digit d" using show_nat_digits [of n] by (simp add: sn)
  have ne: "\<not> is_ws d" "d \<noteq> unit_of (CHR ''{'')" "d \<noteq> unit_of (CHR ''}'')" "d \<noteq> unit_of (CHR ''['')" "d \<noteq> unit_of (CHR '']'')"
    "d \<noteq> unit_of (CHR '':'')" "d \<noteq> unit_of (CHR '','')" "d \<noteq> unit_of (CHR 0x22)"
    using dg by (auto simp: is_digit_def is_ws_def)
  have "lex (d # ds @ unit_of (CHR '','') # rest) =
        (case lex_number (d # ds @ unit_of (CHR '','') # rest) of None \<Rightarrow> None
         | Some (t, r) \<Rightarrow> cons_tok t (lex r))"
    using ne dg by (subst lex.simps) simp
  then show ?thesis
    using lex_number_show_nat [of n rest] by (simp add: sn)
qed

lemma parse_file_meta:
  "JSON_parse (stringify_file_meta nm sz ty) = Some (file_meta_envelope nm sz ty)"
  by (simp add: lit_Nil lit_Cons JSON_parse_def stringify_file_meta_def file_meta_envelope_def lex_quote
      lex_show_nat is_ws_def is_digit_def cons_tok_def cons_fst_def)

lemma parse_file_end: "JSON_parse stringify_file_end = Some file_end_envelope"
  by (simp add: lit_Nil lit_Cons stringify_file_end_def file_end_envelope_def JSON_parse_def is_ws_def is_digit_def
      cons_tok_def cons_fst_def)

text \<open>\<open>JSON.parse\<close> never returns \<open>undefined\<close>.\<close>

lemma want_value_defined: "want_value st ts = Some r \<Longrightarrow> r \<noteq> Undefined"
  and have_value_defined: "have_value v st' ts' = Some r' \<Longrightarrow> v \<noteq> Undefined \<Longrightarrow> r' \<noteq> Undefined"
proof (induction st ts and v st' ts' arbitrary: r and r' rule: want_value_have_value.induct)
  case (1 st)
  then show ?case by simp
next
  case (2 st t ts)
  show ?case
  proof (cases t)
    case TLBrace
    show ?thesis
    proof (cases ts)
      case Nil
      with TLBrace "2.prems" show ?thesis by simp
    next
      case (Cons x xs)
      show ?thesis
      proof (cases x)
        case TRBrace
        with TLBrace Cons "2.prems" "2.IH"(1) show ?thesis by simp
      next
        case (TStr k)
        show ?thesis
        proof (cases xs)
          case Nil
          with TLBrace Cons TStr "2.prems" show ?thesis by simp
        next
          case c2: (Cons y ys)
          show ?thesis
          proof (cases "y = TColon")
            case True
            with TLBrace Cons TStr c2 "2.prems" "2.IH"(2) show ?thesis by simp
          next
            case False
            with TLBrace Cons TStr c2 "2.prems" show ?thesis by (cases y) simp_all
          qed
        qed
      qed (use TLBrace Cons "2.prems" in simp_all)
    qed
  next
    case TLBrack
    show ?thesis
    proof (cases ts)
      case Nil
      with TLBrack "2.prems" "2.IH"(3) show ?thesis by simp
    next
      case (Cons x xs)
      show ?thesis
      proof (cases "x = TRBrack")
        case True
        with TLBrack Cons "2.prems" "2.IH"(7) show ?thesis by simp
      next
        case False
        have "want_value (InArr [] # st) ts = Some r"
          using False TLBrack Cons "2.prems" by (cases x) simp_all
        moreover have "want_value (InArr [] # st) ts = Some r \<Longrightarrow> r \<noteq> Undefined"
          using False TLBrack Cons "2.IH"(4-6,8-14) by (cases x) simp_all
        ultimately show ?thesis by simp
      qed
    qed
  next
    case (TStr x)
    with "2.prems" "2.IH"(15) show ?thesis by simp
  next
    case (TNum m e)
    with "2.prems" "2.IH"(16) show ?thesis by simp
  next
    case TTrue
    with "2.prems" "2.IH"(17) show ?thesis by simp
  next
    case TFalse
    with "2.prems" "2.IH"(18) show ?thesis by simp
  next
    case TNull
    with "2.prems" "2.IH"(19) show ?thesis by simp
  qed (use "2.prems" in simp_all)
next
  case (3 v ts)
  then show ?case by (auto split: if_splits)
next
  case (4 v acc st ts)
  show ?case
  proof (cases ts)
    case Nil
    with "4.prems" show ?thesis by simp
  next
    case (Cons t ts')
    show ?thesis
    proof (cases t)
      case TRBrack
      with Cons "4.prems" "4.IH"(1) show ?thesis by simp
    next
      case TComma
      with Cons "4.prems" "4.IH"(2) show ?thesis by simp
    qed (use Cons "4.prems" in simp_all)
  qed
next
  case (5 v acc k st ts)
  show ?case
  proof (cases ts)
    case Nil
    with "5.prems" show ?thesis by simp
  next
    case (Cons t ts')
    show ?thesis
    proof (cases t)
      case TRBrace
      with Cons "5.prems" "5.IH"(1) show ?thesis by simp
    next
      case TComma
      show ?thesis
      proof (cases ts')
        case Nil
        with Cons TComma "5.prems" show ?thesis by simp
      next
        case c2: (Cons x xs)
        show ?thesis
        proof (cases x)
          case (TStr k')
          show ?thesis
          proof (cases xs)
            case Nil
            with Cons TComma c2 TStr "5.prems" show ?thesis by simp
          next
            case c3: (Cons y ys)
            show ?thesis
            proof (cases "y = TColon")
              case True
              with Cons TComma c2 TStr c3 "5.prems" "5.IH"(2) show ?thesis by simp
            next
              case False
              with Cons TComma c2 TStr c3 "5.prems" show ?thesis by (cases y) simp_all
            qed
          qed
        qed (use Cons TComma c2 "5.prems" in simp_all)
      qed
    qed (use Cons "5.prems" in simp_all)
  qed
qed

lemma JSON_parse_defined: "JSON_parse d \<noteq> Some Undefined"
  using want_value_defined [of "[]" _ Undefined]
  by (auto simp: JSON_parse_def split: option.splits)

lemma parse_hello: \<open>JSON_parse (lit ''hello'') = None\<close>
  by (simp add: lit_Nil lit_Cons JSON_parse_def is_ws_def is_digit_def)

lemma parse_null: \<open>JSON_parse (lit ''null'') = Some Null\<close>
  by (simp add: lit_Nil lit_Cons JSON_parse_def is_ws_def is_digit_def cons_tok_def)

lemma parse_42: \<open>JSON_parse (lit ''42'') = Some (Num 42 0)\<close>
  by (simp add: lit_Nil lit_Cons JSON_parse_def is_ws_def is_digit_def cons_tok_def lex_number_def
      lex_sign_def lex_int_def lex_frac_def lex_exp_def digits_val_def digit_val_def)

lemma parse_other: \<open>JSON_parse (lit ''{"t":"other"}'') = Some (Obj [((lit ''t''), Str (lit ''other''))])\<close>
  by (simp add: lit_Nil lit_Cons JSON_parse_def is_ws_def is_digit_def cons_tok_def cons_fst_def)

text \<open>Texts with an escape above the Latin-1 range: the escape is read as the code unit it
  names, so \<open>\u0163hat\<close> is not \<open>chat\<close> and the key \<open>\u0174\<close> is not \<open>t\<close>.\<close>

lemma parse_escaped_tag:
  \<open>JSON_parse (lit ''{"t":"'' @ [unit_of (CHR 0x5C)] @ lit ''u0163hat","text":"x"}'') =
     Some (Obj [(lit ''t'', Str (0x163 # lit ''hat'')), (lit ''text'', Str (lit ''x''))])\<close>
  by (simp add: eval_json)

lemma parse_escaped_key:
  \<open>JSON_parse (lit ''{"'' @ [unit_of (CHR 0x5C)] @
               lit ''u0174":1,"t":"file-meta","meta":{"size":3}}'') =
     Some (Obj [([0x174], Num 1 0), (lit ''t'', Str (lit ''file-meta'')),
                (lit ''meta'', Obj [(lit ''size'', Num 3 0)])])\<close>
  by (simp add: eval_json)

lemma parse_duplicate_tag:
  \<open>JSON_parse (lit ''{"t":"chat","text":"x","'' @ [unit_of (CHR 0x5C)] @ lit ''u0174":1}'') =
     Some (Obj [(lit ''t'', Str (lit ''chat'')), (lit ''text'', Str (lit ''x'')),
                ([0x174], Num 1 0)])\<close>
  by (simp add: eval_json)


section \<open>The receive path\<close>

lemma file_meta_envelope_props:
  "get_prop (file_meta_envelope nm sz ty) (lit ''t'') = Inr (Str (lit ''file-meta''))"
  "get_prop (file_meta_envelope nm sz ty) (lit ''meta'') =
     Inr (Obj [((lit ''name''), Str nm), ((lit ''size''), Num (int sz) 0), ((lit ''type''), Str ty)])"
  "get_prop (Obj [((lit ''name''), Str nm), ((lit ''size''), Num (int sz) 0), ((lit ''type''), Str ty)]) (lit ''size'') =
     Inr (Num (int sz) 0)"
  by (simp_all add: file_meta_envelope_def)

lemma file_end_envelope_props: "get_prop file_end_envelope (lit ''t'') = Inr (Str (lit ''file-end''))"
  by (simp add: file_end_envelope_def)

lemma receive_append: "receive (fs @ gs) s = receive gs (receive fs s)"
  by (induction fs arbitrary: s) auto

lemma on_file_meta:
  "JSON_parse d = Some msg \<Longrightarrow> get_prop msg (lit ''t'') = Inr (Str (lit ''file-meta'')) \<Longrightarrow>
   get_prop msg (lit ''meta'') = Inr meta \<Longrightarrow> get_prop meta (lit ''size'') = Inr sz \<Longrightarrow>
   onmessage now (Text d) s = s\<lparr>sendingRef := Some \<lparr>buffer = [], size' = sz\<rparr>\<rparr>"
  by (simp add: onmessage_def try_text_def)

lemma on_file_end:
  "JSON_parse d = Some msg \<Longrightarrow> get_prop msg (lit ''t'') = Inr (Str (lit ''file-end'')) \<Longrightarrow>
   sendingRef s = Some e \<Longrightarrow>
   onmessage now (Text d) s =
     s\<lparr>downloads := downloads s @ [\<lparr>stamp = now, content = concat (buffer e)\<rparr>],
       toasts := toasts s @ [ToastFichierRecu], sendingRef := None\<rparr>"
  by (simp add: onmessage_def try_text_def)

lemma receive_chunks:
  "sendingRef s = Some e \<Longrightarrow>
   receive (map (\<lambda>(t, b). (t, ArrayBuffer b)) cs) s =
     s\<lparr>sendingRef := Some (e\<lparr>buffer := buffer e @ map snd cs\<rparr>)\<rparr>"
proof (induction cs arbitrary: s e)
  case Nil
  then show ?case by simp
next
  case (Cons c cs)
  obtain t b where c: "c = (t, b)" by (cases c)
  let ?e1 = "e\<lparr>buffer := buffer e @ [b]\<rparr>"
  have s1: "onmessage t (ArrayBuffer b) s = s\<lparr>sendingRef := Some ?e1\<rparr>"
    using Cons.prems by (simp add: onmessage_def)
  have "receive (map (\<lambda>(t, b). (t, ArrayBuffer b)) cs) (s\<lparr>sendingRef := Some ?e1\<rparr>) =
        s\<lparr>sendingRef := Some ?e1\<rparr>\<lparr>sendingRef := Some (?e1\<lparr>buffer := buffer ?e1 @ map snd cs\<rparr>)\<rparr>"
    by (rule Cons.IH) simp
  then show ?case by (simp add: c s1)
qed

text \<open>
  C5. A file-meta frame that arrives while a transfer is open (no file-end yet) replaces
  the open transfer by an empty one, whatever it had buffered; the chunks that follow and
  the next file-end then deliver a file made of these chunks only.
\<close>

theorem file_meta_discards_prior:
  assumes "sendingRef s = Some old"
    and "JSON_parse d = Some msg" and "get_prop msg (lit ''t'') = Inr (Str (lit ''file-meta''))"
    and "get_prop msg (lit ''meta'') = Inr meta" and "get_prop meta (lit ''size'') = Inr sz"
    and "JSON_parse d' = Some msg'" and "get_prop msg' (lit ''t'') = Inr (Str (lit ''file-end''))"
  shows "sendingRef (onmessage t0 (Text d) s) = Some \<lparr>buffer = [], size' = sz\<rparr> \<and>
         downloads (receive ((t0, Text d) # map (\<lambda>(t, b). (t, ArrayBuffer b)) cs @
                             [(t1, Text d')]) s) =
           downloads s @ [\<lparr>stamp = t1, content = concat (map snd cs)\<rparr>]"
proof -
  let ?m = "\<lparr>buffer = [], size' = sz\<rparr>"
  let ?n = "\<lparr>buffer = map snd cs, size' = sz\<rparr>"
  have s1: "onmessage t0 (Text d) s = s\<lparr>sendingRef := Some ?m\<rparr>"
    using assms(2-5) by (rule on_file_meta)
  have s2: "receive (map (\<lambda>(t, b). (t, ArrayBuffer b)) cs) (s\<lparr>sendingRef := Some ?m\<rparr>) =
            s\<lparr>sendingRef := Some ?n\<rparr>"
    using receive_chunks [of "s\<lparr>sendingRef := Some ?m\<rparr>" ?m cs] by simp
  have s3: "onmessage t1 (Text d') (s\<lparr>sendingRef := Some ?n\<rparr>) =
            s\<lparr>downloads := downloads s @ [\<lparr>stamp = t1, content = concat (map snd cs)\<rparr>],
              toasts := toasts s @ [ToastFichierRecu], sendingRef := None\<rparr>"
    using on_file_end [OF assms(6,7), of "s\<lparr>sendingRef := Some ?n\<rparr>" ?n t1] by simp
  show ?thesis
    by (simp add: receive_append s1 s2 s3)
qed

theorem file_meta_discards_prior_witness:
  \<open>downloads
     (receive [(1, Text (stringify_file_meta (lit ''b.txt'') 3 (lit ''text/plain''))),
               (2, ArrayBuffer [1, 2]), (3, ArrayBuffer [3]), (4, Text stringify_file_end)]
        (initial\<lparr>sendingRef := Some \<lparr>buffer = [[9, 9]], size' = Num 2 0\<rparr>\<rparr>)) =
     [\<lparr>stamp = 4, content = [1, 2, 3]\<rparr>] \<and>
   sendingRef
     (onmessage 1
        (Text (lit ''{"'' @ [unit_of (CHR 0x5C)] @
               lit ''u0174":1,"t":"file-meta","meta":{"size":3}}''))
        (initial\<lparr>sendingRef := Some \<lparr>buffer = [[9, 9]], size' = Num 2 0\<rparr>\<rparr>)) =
     Some \<lparr>buffer = [], size' = Num 3 0\<rparr>\<close>
proof -
  let ?s = "initial\<lparr>sendingRef := Some \<lparr>buffer = [[9, 9]], size' = Num 2 0\<rparr>\<rparr>"
  have st: "sendingRef ?s = Some \<lparr>buffer = [[9, 9]], size' = Num 2 0\<rparr>" by simp
  have a: "downloads
     (receive [(1, Text (stringify_file_meta (lit ''b.txt'') 3 (lit ''text/plain''))),
               (2, ArrayBuffer [1, 2]), (3, ArrayBuffer [3]), (4, Text stringify_file_end)] ?s) =
     [\<lparr>stamp = 4, content = [1, 2, 3]\<rparr>]"
    using file_meta_discards_prior [OF st parse_file_meta file_meta_envelope_props
      parse_file_end file_end_envelope_props,
      where ?t0.0 = 1 and cs = "[(2, [1, 2]), (3, [3])]" and ?t1.0 = 4,
      THEN conjunct2]
    by (simp add: initial_def)
  have t: "get_prop (Obj [([0x174], Num 1 0), (lit ''t'', Str (lit ''file-meta'')),
                (lit ''meta'', Obj [(lit ''size'', Num 3 0)])]) (lit ''t'') =
           Inr (Str (lit ''file-meta''))"
    by (simp add: lit_Nil lit_Cons unit_of_neq_beyond beyond_neq_unit_of)
  have m: "get_prop (Obj [([0x174], Num 1 0), (lit ''t'', Str (lit ''file-meta'')),
                (lit ''meta'', Obj [(lit ''size'', Num 3 0)])]) (lit ''meta'') =
           Inr (Obj [(lit ''size'', Num 3 0)])"
    by (simp add: lit_Nil lit_Cons unit_of_neq_beyond beyond_neq_unit_of)
  have z: "get_prop (Obj [(lit ''size'', Num 3 0)]) (lit ''size'') = Inr (Num 3 0)"
    by simp
  note b = file_meta_discards_prior [OF st parse_escaped_key t m z
      parse_file_end file_end_envelope_props, where ?t0.0 = 1, THEN conjunct1]
  from a b show ?thesis by (rule conjI)
qed

text \<open>
  C6. A text frame on which \<open>JSON.parse\<close> throws is handled without an error: the handler
  returns the session with one more message, from the peer, whose text is the frame's
  whole text.
\<close>

theorem unparsable_text_is_chat:
  "JSON_parse d = None \<Longrightarrow>
   onmessage now (Text d) s =
     s\<lparr>messages := messages s @ [\<lparr>msg_from = Peer, msg_text = Str d, msg_at = now\<rparr>]\<rparr>"
  by (simp add: onmessage_def try_text_def)

theorem unparsable_text_is_chat_witness:
  \<open>JSON_parse (lit ''hello'') = None \<and>
   messages (onmessage 5 (Text (lit ''hello'')) initial) =
     [\<lparr>msg_from = Peer, msg_text = Str (lit ''hello''), msg_at = 5\<rparr>]\<close>
  using unparsable_text_is_chat [OF parse_hello, of 5 initial]
  by (simp add: parse_hello initial_def)

text \<open>
  C7, as stated: a binary frame that arrives while no transfer is open is not discarded.
  It fails for a binary frame that reaches the handler as a \<open>Blob\<close>, which is what a
  channel whose \<open>binaryType\<close> is \<open>blob\<close> delivers: the handler takes neither branch and
  the session, with no transfer open, is left as it was.
\<close>

theorem blob_frame_discarded:
  "sendingRef initial = None \<and>
   onmessage 5 (Blob [1, 2, 3]) initial = initial \<and>
   sendingRef (onmessage 5 (Blob [1, 2, 3]) initial) = None"
  by (simp add: onmessage_def initial_def)

text \<open>
  C7, amended: a binary frame that reaches the handler as an \<open>ArrayBuffer\<close> while no
  transfer is open opens one with size 0 and the frame's bytes as its first chunk.
\<close>

theorem binary_without_meta_buffered:
  "sendingRef s = None \<Longrightarrow>
   onmessage now (ArrayBuffer b) s = s\<lparr>sendingRef := Some \<lparr>buffer = [b], size' = Num 0 0\<rparr>\<rparr>"
  by (simp add: onmessage_def)

theorem binary_without_meta_buffered_witness:
  "sendingRef initial = None \<and>
   sendingRef (onmessage 5 (ArrayBuffer [1, 2, 3]) initial) =
     Some \<lparr>buffer = [[1, 2, 3]], size' = Num 0 0\<rparr>"
  using binary_without_meta_buffered [of initial 5 "[1, 2, 3]"]
  by (simp add: initial_def)

text \<open>
  C10, as stated: every text that parses and whose tag is none of chat, file-meta and
  file-end leaves the session as it is. It fails at the text \<open>null\<close>: reading \<open>t\<close> of
  \<open>null\<close> throws inside the \<open>try\<close>, and the \<open>catch\<close> appends the text as a chat message.
\<close>

theorem null_text_not_dropped:
  \<open>JSON_parse (lit ''null'') = Some Null \<and>
   get_prop Null (lit ''t'') \<notin> {Inr (Str (lit ''chat'')), Inr (Str (lit ''file-meta'')), Inr (Str (lit ''file-end''))} \<and>
   messages initial = [] \<and>
   messages (onmessage 5 (Text (lit ''null'')) initial) =
     [\<lparr>msg_from = Peer, msg_text = Str (lit ''null''), msg_at = 5\<rparr>]\<close>
  by (simp add: parse_null onmessage_def try_text_def initial_def)

text \<open>
  C10, amended: a text that parses to a value other than \<open>null\<close> whose \<open>t\<close> is none of
  chat, file-meta and file-end leaves the whole session, its message log and its transfer
  buffer included, as it is.
\<close>

theorem untagged_value_dropped:
  assumes "JSON_parse d = Some v" and "v \<noteq> Null"
    and "get_prop v (lit ''t'') \<notin> {Inr (Str (lit ''chat'')), Inr (Str (lit ''file-meta'')), Inr (Str (lit ''file-end''))}"
  shows "onmessage now (Text d) s = s"
proof -
  from assms(1) have "v \<noteq> Undefined" using JSON_parse_defined [of d] by auto
  with assms(2) obtain t where "get_prop v (lit ''t'') = Inr t" by (cases v) auto
  with assms(1,3) show ?thesis by (simp add: onmessage_def try_text_def)
qed

theorem untagged_value_dropped_witness:
  \<open>onmessage 5 (Text (lit ''42'')) initial = initial \<and>
   onmessage 5 (Text (lit ''{"t":"other"}'')) initial = initial \<and>
   onmessage 5 (Text (lit ''{"t":"'' @ [unit_of (CHR 0x5C)] @ lit ''u0163hat","text":"x"}''))
     initial = initial\<close>
  using untagged_value_dropped [OF parse_42, of 5 initial]
    untagged_value_dropped [OF parse_other, of 5 initial]
    untagged_value_dropped [OF parse_escaped_tag, of 5 initial]
  by (simp add: lit_Nil lit_Cons unit_of_neq_beyond beyond_neq_unit_of)

text \<open>A chat envelope stays one when it carries a further key written with an escape.\<close>

lemma chat_with_escaped_key:
  \<open>messages (onmessage 5
      (Text (lit ''{"t":"chat","text":"x","'' @ [unit_of (CHR 0x5C)] @ lit ''u0174":1}''))
      initial) =
   [\<lparr>msg_from = Peer, msg_text = Str (lit ''x''), msg_at = 5\<rparr>]\<close>
  by (simp only: onmessage_def try_text_def frame.case parse_duplicate_tag)
    (simp add: initial_def lit_Nil lit_Cons unit_of_neq_beyond beyond_neq_unit_of)

section \<open>The send path and the round trip of a file\<close>

lemma sent_ch_send: "sent (ch_send f ch) = sent ch @ [f]"
  by (simp add: ch_send_def)

lemma readyState_ch_send: "readyState (ch_send f ch) = readyState ch"
  by (simp add: ch_send_def)








section \<open>The message log\<close>

lemma trim_a: "trim (lit ''a'') = (lit ''a'')" "trim (lit ''b'') = (lit ''b'')"
  by (simp_all add: trim_def is_space_def lit_Nil lit_Cons)

lemma messages_set_local_and_encode:
  assumes "\<And>v s. messages (set_text v s) = messages s"
  shows "messages (the_state (set_local_and_encode sc d set_text ready err s)) = messages s"
  using assms
  by (simp add: set_local_and_encode_def Let_def caught_def split: sum.splits async.splits)

lemma messages_createOffer: "messages (the_state (createOffer sc s)) = messages s"
  by (simp add: createOffer_def Let_def caught_def createDataChannelIfNeeded_def
      messages_set_local_and_encode split: sum.splits option.splits)

lemma messages_acceptOffer: "messages (the_state (acceptOffer sc s)) = messages s"
  by (simp add: acceptOffer_def Let_def caught_def 
      messages_set_local_and_encode split: sum.splits option.splits)

lemma messages_applyAnswer: "messages (applyAnswer sc s) = messages s"
  by (simp add: applyAnswer_def Let_def caught_def split: sum.splits option.splits)

lemma messages_onmessage: "\<exists>ys. messages (onmessage now f s) = messages s @ ys"
  by (cases f) (auto simp: onmessage_def try_text_def Let_def split: sum.splits option.splits if_splits)

lemma messages_sendChat: "\<exists>ys. messages (sendChat now s) = messages s @ ys"
  by (simp add: sendChat_def split: option.splits)

lemma messages_sendFile: "messages (sendFile fo s) = messages s"
  by (simp add: sendFile_def Let_def split: option.splits)

lemma messages_run: "\<exists>ys. messages (run a s) = messages s @ ys"
proof (cases a)
  case (OnMessage now f)
  then show ?thesis using messages_onmessage by simp
next
  case (SendChat now)
  then show ?thesis using messages_sendChat by simp
qed (simp_all add: messages_sendFile messages_createOffer messages_acceptOffer messages_applyAnswer
    setOutgoingText_def setRemoteAnswer_def setRemoteOffer_def onconnectionstatechange_def
    ondatachannel_def onopen_def)

text \<open>
  C9. With the channel open and an empty log, sending \<open>a\<close> and then \<open>b\<close> gives the log
  \<open>[(a, me), (b, me)]\<close>, in this order; each message is in the log when its \<open>sendChat\<close>
  returns, and its frame has been handed to the channel. No handler of the page removes
  or changes an entry of the log: after any of them the old log is a prefix of the new.
\<close>

theorem chat_order:
  assumes "dataChannelRef s = Some ch" and "readyState ch = Open" and "messages s = []"
  shows "messages (sendChat t1 (setOutgoingText (lit ''a'') s)) =
           [\<lparr>msg_from = Me, msg_text = Str (lit ''a''), msg_at = t1\<rparr>] \<and>
         messages (sendChat t2 (setOutgoingText (lit ''b'') (sendChat t1 (setOutgoingText (lit ''a'') s)))) =
           [\<lparr>msg_from = Me, msg_text = Str (lit ''a''), msg_at = t1\<rparr>,
            \<lparr>msg_from = Me, msg_text = Str (lit ''b''), msg_at = t2\<rparr>] \<and>
         outbox (sendChat t2 (setOutgoingText (lit ''b'') (sendChat t1 (setOutgoingText (lit ''a'') s)))) =
           outbox s @ [Text (stringify_chat (lit ''a'')), Text (stringify_chat (lit ''b''))] \<and>
         (\<forall>a s'. \<exists>ys. messages (run a s') = messages s' @ ys)"
  using assms
  by (simp add: sendChat_def setOutgoingText_def trim_a outbox_def sent_ch_send readyState_ch_send
      messages_run)

theorem chat_order_witness:
  "messages (sendChat 2 (setOutgoingText (lit ''b'') (sendChat 1 (setOutgoingText (lit ''a'') open_session)))) =
     [\<lparr>msg_from = Me, msg_text = Str (lit ''a''), msg_at = 1\<rparr>,
      \<lparr>msg_from = Me, msg_text = Str (lit ''b''), msg_at = 2\<rparr>]"
proof -
  have ch: "dataChannelRef open_session = Some \<lparr>readyState = Open, sent = []\<rparr>"
    "readyState \<lparr>readyState = Open, sent = []\<rparr> = Open" "messages open_session = []"
    by (simp_all add: open_session_def initial_def)
  from chat_order [OF ch, of 1 2] show ?thesis by simp
qed

section \<open>Signaling\<close>

text \<open>
  C2. For every session description \<open>d\<close>, the text \<open>JSON.stringify\<close> makes of it parses
  back to the dictionary of \<open>d\<close>'s type and sdp, from which \<open>d\<close> is read again.
\<close>

theorem descriptor_roundtrip:
  "JSON_parse (stringify_desc (Some d)) = Some (desc_init d) \<and> read_desc (desc_init d) = Some d"
  by (simp add: parse_desc read_desc_init)

lemma gathering_after_append:
  "gathering_after g (xs @ ys) = gathering_after (gathering_after g xs) ys"
  by (induction g xs rule: gathering_after.induct) auto

lemma encodes_when_complete_append:
  "encodes_when_complete g (xs @ ys) \<longleftrightarrow>
   encodes_when_complete g xs \<and> encodes_when_complete (gathering_after g xs) ys"
  by (induction g xs rule: encodes_when_complete.induct) auto

lemma offers_with_channel_append:
  "offers_with_channel c (xs @ ys) \<longleftrightarrow>
   offers_with_channel c xs \<and> offers_with_channel (c \<or> CreateDataChannel \<in> set xs) ys"
  by (induction c xs rule: offers_with_channel.induct) auto

lemma encode_at_complete:
  "encodes_when_complete g (pre @ Encode d # post) \<Longrightarrow> gathering_after g pre = Complete"
  by (simp add: encodes_when_complete_append)

lemma offer_has_channel:
  "offers_with_channel c (pre @ CreateOffer # post) \<Longrightarrow> c \<or> CreateDataChannel \<in> set pre"
  by (simp add: offers_with_channel_append)

text \<open>A peer connection \<open>p'\<close> reached from \<open>p\<close> by logged steps \<open>tr\<close> that keep the rule.\<close>

lemma fold_dispatch_trace:
  "trace (fold dispatch evs p) = trace p @ map IceGatheringStateChange (map fst evs) \<and>
   iceGatheringState (fold dispatch evs p) =
     gathering_after (iceGatheringState p) (map IceGatheringStateChange (map fst evs))"
  by (induction evs arbitrary: p) (simp_all add: dispatch_def log_def)

lemma ice_events_ok:
  "encodes_when_complete g (map IceGatheringStateChange gs)"
  "offers_with_channel c (map IceGatheringStateChange gs)"
  "CreateOffer \<notin> set (map IceGatheringStateChange gs)"
  "CreateDataChannel \<notin> set (map IceGatheringStateChange gs)"
  by (induction gs arbitrary: g) auto

lemma await_complete_trace:
  "\<exists>gs. trace (the_state (await_complete evs p)) = trace p @ map IceGatheringStateChange gs \<and>
        iceGatheringState (the_state (await_complete evs p)) =
          gathering_after (iceGatheringState p) (map IceGatheringStateChange gs)"
proof (induction evs arbitrary: p)
  case Nil
  show ?case by (simp add: exI [of _ "[]"])
next
  case (Cons ev evs)
  show ?case
  proof (cases "iceGatheringState (dispatch ev p) = Complete")
    case True
    then show ?thesis
      by (auto simp: dispatch_def log_def intro!: exI [of _ "[fst ev]"])
  next
    case False
    from Cons [of "dispatch ev p"] obtain gs where
      "trace (the_state (await_complete evs (dispatch ev p))) =
         trace (dispatch ev p) @ map IceGatheringStateChange gs"
      "iceGatheringState (the_state (await_complete evs (dispatch ev p))) =
         gathering_after (iceGatheringState (dispatch ev p)) (map IceGatheringStateChange gs)"
      by blast
    with False show ?thesis
      by (auto simp: dispatch_def log_def intro!: exI [of _ "fst ev # gs"])
  qed
qed

lemma await_complete_settled:
  "await_complete evs p = Settled p' \<Longrightarrow> iceGatheringState p' = Complete"
  by (induction evs arbitrary: p) (auto split: if_splits)

lemma waitForIceGathering_trace:
  "\<exists>gs. trace (the_state (waitForIceGathering evs p)) = trace p @ map IceGatheringStateChange gs \<and>
        iceGatheringState (the_state (waitForIceGathering evs p)) =
          gathering_after (iceGatheringState p) (map IceGatheringStateChange gs)"
proof (cases "iceGatheringState p = Complete")
  case True
  then show ?thesis by (simp add: waitForIceGathering_def exI [of _ "[]"])
next
  case False
  then show ?thesis using await_complete_trace [of evs p] by (simp add: waitForIceGathering_def)
qed

lemma waitForIceGathering_settled:
  "waitForIceGathering evs p = Settled p' \<Longrightarrow> iceGatheringState p' = Complete"
  by (auto simp: waitForIceGathering_def split: if_splits dest: await_complete_settled)


lemma set_local_and_encode_trace:
  assumes keep: "\<And>v s. pc (set_text v s) = pc s"
  shows "\<exists>new. trace (pc (the_state (set_local_and_encode sc d set_text ready err s))) =
                 trace (pc s) @ new \<and>
               encodes_when_complete (iceGatheringState (pc s)) new \<and>
               CreateOffer \<notin> set new \<and> CreateDataChannel \<notin> set new"
proof (cases "set_local_result sc")
  case (Inl e)
  then have "trace (pc (the_state (set_local_and_encode sc d set_text ready err s))) =
             trace (pc s) @ [SetLocalDescription d]"
    by (simp add: set_local_and_encode_def Let_def caught_def log_def)
  then show ?thesis by (intro exI [of _ "[SetLocalDescription d]"]) simp
next
  case (Inr evs)
  let ?g = "iceGatheringState (pc s)"
  let ?p1 = "(log (SetLocalDescription d) (pc s))\<lparr>localDescription := Some d\<rparr>"
  let ?p2 = "fold dispatch evs ?p1"
  let ?t2 = "SetLocalDescription d # map IceGatheringStateChange (map fst evs)"
  have t2: "trace ?p2 = trace (pc s) @ ?t2"
    and g2: "iceGatheringState ?p2 = gathering_after ?g ?t2"
    using fold_dispatch_trace [of evs ?p1] by (simp_all add: log_def)
  let ?w = "waitForIceGathering (gathering_events sc) ?p2"
  obtain gs where t3: "trace (the_state ?w) = trace ?p2 @ map IceGatheringStateChange gs"
    and g3: "iceGatheringState (the_state ?w) =
             gathering_after (iceGatheringState ?p2) (map IceGatheringStateChange gs)"
    using waitForIceGathering_trace [of "gathering_events sc" ?p2] by blast
  let ?t3 = "?t2 @ map IceGatheringStateChange gs"
  have ok3: "encodes_when_complete ?g ?t3" "CreateOffer \<notin> set ?t3" "CreateDataChannel \<notin> set ?t3"
    by (auto simp: encodes_when_complete_append ice_events_ok simp del: map_map)
  have g3': "iceGatheringState (the_state ?w) = gathering_after ?g ?t3"
    by (simp add: g3 g2 gathering_after_append)
  show ?thesis
  proof (cases ?w)
    case (Suspended p3)
    then have "trace (pc (the_state (set_local_and_encode sc d set_text ready err s))) =
               trace (pc s) @ ?t3"
      using Inr t3 t2 by (simp add: set_local_and_encode_def Let_def)
    with ok3 show ?thesis by blast
  next
    case (Settled p3)
    then have c: "gathering_after ?g ?t3 = Complete"
      using waitForIceGathering_settled [of "gathering_events sc" ?p2 p3] g3' by simp
    have "trace (pc (the_state (set_local_and_encode sc d set_text ready err s))) =
          trace (pc s) @ ?t3 @ [Encode (localDescription p3)]"
      using Inr Settled t3 t2 by (simp add: set_local_and_encode_def Let_def keep log_def)
    moreover have "encodes_when_complete ?g (?t3 @ [Encode (localDescription p3)])"
      using ok3(1) c by (simp add: encodes_when_complete_append del: append_assoc)
    moreover have "CreateOffer \<notin> set (?t3 @ [Encode (localDescription p3)])"
      "CreateDataChannel \<notin> set (?t3 @ [Encode (localDescription p3)])"
      using ok3(2,3) by auto
    ultimately show ?thesis by blast
  qed
qed

lemma createOffer_trace:
  "\<exists>new. trace (pc (the_state (createOffer sc s))) = trace (pc s) @ new \<and>
         encodes_when_complete (iceGatheringState (pc s)) new \<and>
         offers_with_channel (dataChannelRef s \<noteq> None) new \<and> new \<noteq> []"
proof -
  let ?s1 = "createDataChannelIfNeeded s"
  let ?s2 = "?s1\<lparr>pc := log CreateOffer (pc ?s1)\<rparr>"
  let ?chan = "if dataChannelRef s = None then [CreateDataChannel] else []"
  let ?g = "iceGatheringState (pc s)"
  have t2: "trace (pc ?s2) = trace (pc s) @ ?chan @ [CreateOffer]"
    and g2: "iceGatheringState (pc ?s2) = ?g"
    by (auto simp: createDataChannelIfNeeded_def log_def split: option.splits)
  have ch: "offers_with_channel (dataChannelRef s \<noteq> None) (?chan @ [CreateOffer])"
    by simp
  show ?thesis
  proof (cases "create_result sc")
    case (Inl e)
    then have "trace (pc (the_state (createOffer sc s))) = trace (pc s) @ ?chan @ [CreateOffer]"
      using t2 by (simp add: createOffer_def Let_def caught_def)
    moreover have "encodes_when_complete ?g (?chan @ [CreateOffer])" by simp
    moreover have "?chan @ [CreateOffer] \<noteq> []" by simp
    ultimately show ?thesis using ch by blast
  next
    case (Inr offer)
    obtain new where n: "trace (pc (the_state (set_local_and_encode sc offer
          (\<lambda>v s. s\<lparr>localOffer := v\<rparr>) ToastOffrePrete ToastErreurOffre ?s2))) = trace (pc ?s2) @ new"
      "encodes_when_complete (iceGatheringState (pc ?s2)) new"
      "CreateOffer \<notin> set new" "CreateDataChannel \<notin> set new"
      using set_local_and_encode_trace [of "\<lambda>v s. s\<lparr>localOffer := v\<rparr>" sc offer
          ToastOffrePrete ToastErreurOffre ?s2] by auto
    have no: "offers_with_channel c new" for c
      using n(3,4) by (induction c new rule: offers_with_channel.induct) auto
    have "trace (pc (the_state (createOffer sc s))) = trace (pc s) @ (?chan @ [CreateOffer]) @ new"
      using Inr n(1) t2 by (simp add: createOffer_def Let_def)
    moreover have "encodes_when_complete ?g ((?chan @ [CreateOffer]) @ new)"
      using n(2) g2 by (simp add: encodes_when_complete_append del: append_assoc)
    moreover have "offers_with_channel (dataChannelRef s \<noteq> None) ((?chan @ [CreateOffer]) @ new)"
      using ch no by (simp add: offers_with_channel_append del: append_assoc)
    moreover have "(?chan @ [CreateOffer]) @ new \<noteq> []" by simp
    ultimately show ?thesis by blast
  qed
qed

lemma createOffer_text:
  "localOffer (the_state (createOffer sc s)) = localOffer s \<or>
   (\<exists>pre d. trace (pc (the_state (createOffer sc s))) = pre @ [Encode d] \<and>
            localOffer (the_state (createOffer sc s)) = stringify_desc d)"
  by (auto simp: createOffer_def set_local_and_encode_def Let_def caught_def log_def
      createDataChannelIfNeeded_def split: sum.splits async.splits option.splits)

lemma snoc_of_append:
  assumes "xs @ new = pre @ [x]" and "new \<noteq> []"
  shows "\<exists>pre'. new = pre' @ [x]"
proof -
  from assms(2) obtain ys y where new: "new = ys @ [y]"
    by (cases new rule: rev_cases) auto
  with assms(1) have "y = x" by simp
  with new show ?thesis by blast
qed

text \<open>
  C8. In every run of \<open>createOffer\<close>, whatever the peer connection answers: the call
  \<open>pc.createOffer\<close> is made when a data channel exists (it was there before, or
  \<open>createDataChannel\<close> comes earlier in the run); and \<open>JSON.stringify(pc.localDescription)\<close>
  is called only when the gathering state, after all events up to that point, is
  \<open>complete\<close>. The offer text of the page is either left as it was or is the text made by
  that call, which is the last step of the run.
\<close>

theorem offer_sequencing:
  "\<exists>new. trace (pc (the_state (createOffer sc s))) = trace (pc s) @ new \<and>
     (\<forall>pre post. new = pre @ CreateOffer # post \<longrightarrow>
        dataChannelRef s \<noteq> None \<or> CreateDataChannel \<in> set pre) \<and>
     (\<forall>pre d post. new = pre @ Encode d # post \<longrightarrow>
        gathering_after (iceGatheringState (pc s)) pre = Complete) \<and>
     (localOffer (the_state (createOffer sc s)) = localOffer s \<or>
      (\<exists>pre d. new = pre @ [Encode d] \<and>
               localOffer (the_state (createOffer sc s)) = stringify_desc d))"
proof -
  obtain new where n: "trace (pc (the_state (createOffer sc s))) = trace (pc s) @ new"
    "encodes_when_complete (iceGatheringState (pc s)) new"
    "offers_with_channel (dataChannelRef s \<noteq> None) new" "new \<noteq> []"
    using createOffer_trace [of sc s] by blast
  have a: "\<forall>pre post. new = pre @ CreateOffer # post \<longrightarrow>
        dataChannelRef s \<noteq> None \<or> CreateDataChannel \<in> set pre"
    using n(3) offer_has_channel [of "dataChannelRef s \<noteq> None"] by blast
  have b: "\<forall>pre d post. new = pre @ Encode d # post \<longrightarrow>
        gathering_after (iceGatheringState (pc s)) pre = Complete"
    using n(2) encode_at_complete by blast
  have c: "localOffer (the_state (createOffer sc s)) = localOffer s \<or>
      (\<exists>pre d. new = pre @ [Encode d] \<and>
               localOffer (the_state (createOffer sc s)) = stringify_desc d)"
  proof (cases "localOffer (the_state (createOffer sc s)) = localOffer s")
    case True
    then show ?thesis by simp
  next
    case False
    with createOffer_text [of sc s] obtain pre d where
      e: "trace (pc (the_state (createOffer sc s))) = pre @ [Encode d]"
        "localOffer (the_state (createOffer sc s)) = stringify_desc d"
      by blast
    from n(4) snoc_of_append [of "trace (pc s)" new pre "Encode d"] n(1) e(1)
    obtain pre' where "new = pre' @ [Encode d]" by auto
    with e(2) show ?thesis by blast
  qed
  from n(1) a b c show ?thesis by blast
qed

theorem offer_sequencing_witness:
  \<open>trace (pc (the_state (createOffer sample_script initial))) =
     [CreateDataChannel, CreateOffer, SetLocalDescription (sample_desc (lit ''v=0'')),
      IceGatheringStateChange Gathering, IceGatheringStateChange Gathering,
      IceGatheringStateChange Complete, Encode (Some (sample_desc (lit ''v=0 a b'')))] \<and>
   localOffer (the_state (createOffer sample_script initial)) =
     (lit ''{"type":"offer","sdp":"v=0 a b"}'') \<and>
   trace (pc (the_state (createOffer (sample_script\<lparr>gathering_events := []\<rparr>) initial))) =
     [CreateDataChannel, CreateOffer, SetLocalDescription (sample_desc (lit ''v=0'')),
      IceGatheringStateChange Gathering] \<and>
   localOffer (the_state (createOffer (sample_script\<lparr>gathering_events := []\<rparr>) initial)) = []\<close>
  using offer_sequencing [of sample_script initial]
  by (simp add: createOffer_def set_local_and_encode_def Let_def log_def dispatch_def
      createDataChannelIfNeeded_def waitForIceGathering_def sample_script_def initial_def
      sample_desc_def stringify_desc_def type_name_def quote_def quote_char_def
      is_high_def is_low_def lit_Nil lit_Cons)

text \<open>
  C4. When the pasted text is not valid JSON, \<open>applyAnswer\<close> and \<open>acceptOffer\<close> both end
  normally: the SyntaxError is caught, written to the console and shown as the
  notification "invalide"; nothing is handed to the peer connection, and the session is
  otherwise as it was (same peer connection, same \<open>connected\<close>).
\<close>

theorem malformed_descriptor:
  assumes "JSON_parse txt = None"
  shows "applyAnswer sc (setRemoteAnswer txt s) =
           (setRemoteAnswer txt s)\<lparr>console := console s @ [SyntaxError],
                                   toasts := toasts s @ [ToastReponseInvalide]\<rparr> \<and>
         acceptOffer sc (setRemoteOffer txt s) =
           Settled ((setRemoteOffer txt s)\<lparr>console := console s @ [SyntaxError],
                                           toasts := toasts s @ [ToastOffreInvalide]\<rparr>) \<and>
         pc (applyAnswer sc (setRemoteAnswer txt s)) = pc s \<and>
         connected (applyAnswer sc (setRemoteAnswer txt s)) = connected s \<and>
         pc (the_state (acceptOffer sc (setRemoteOffer txt s))) = pc s \<and>
         connected (the_state (acceptOffer sc (setRemoteOffer txt s))) = connected s"
  using assms
  by (simp add: applyAnswer_def acceptOffer_def setRemoteAnswer_def setRemoteOffer_def caught_def)

theorem malformed_descriptor_witness:
  \<open>toasts (applyAnswer sample_script (setRemoteAnswer (lit ''hello'') initial)) = [ToastReponseInvalide] \<and>
   console (applyAnswer sample_script (setRemoteAnswer (lit ''hello'') initial)) = [SyntaxError] \<and>
   trace (pc (applyAnswer sample_script (setRemoteAnswer (lit ''hello'') initial))) = [] \<and>
   acceptOffer sample_script (setRemoteOffer (lit ''hello'') initial) =
     Settled (initial\<lparr>remoteOffer := (lit ''hello''), console := [SyntaxError],
                       toasts := [ToastOffreInvalide]\<rparr>)\<close>
proof -
  note m = malformed_descriptor [OF parse_hello, of sample_script initial]
  show ?thesis
    by (simp only: m) (simp add: initial_def setRemoteAnswer_def setRemoteOffer_def)
qed

text \<open>
  C3, as stated: \<open>applyAnswer\<close> before any \<open>createOffer\<close> fails with an invalid-transition
  error instead of decoding and applying the text. It fails on the code: in the session as
  mounted (no offer made, empty trace) a pasted description is parsed and handed to
  \<open>setRemoteDescription\<close>, and with a peer connection that accepts it the outcome is the
  notification that the answer was applied, with no error.
\<close>

theorem answer_applied_before_offer:
  \<open>trace (pc initial) = [] \<and> localOffer initial = [] \<and>
   JSON_parse (lit ''{"type":"offer","sdp":"v=0"}'') = Some (desc_init (sample_desc (lit ''v=0''))) \<and>
   applyAnswer sample_script (setRemoteAnswer (lit ''{"type":"offer","sdp":"v=0"}'') initial) =
     initial\<lparr>pc := (pc initial)\<lparr>trace := [SetRemoteDescription (desc_init (sample_desc (lit ''v=0'')))]\<rparr>,
             remoteAnswer := (lit ''{"type":"offer","sdp":"v=0"}''),
             toasts := [ToastReponseAppliquee]\<rparr> \<and>
   trace (pc (applyAnswer (sample_script\<lparr>set_remote_result := Inl TransportError\<rparr>)
                (setRemoteAnswer (lit ''{"type":"offer","sdp":"v=0"}'') initial))) =
     [SetRemoteDescription (desc_init (sample_desc (lit ''v=0'')))]\<close>
proof -
  have p: \<open>JSON_parse (lit ''{"type":"offer","sdp":"v=0"}'') = Some (desc_init (sample_desc (lit ''v=0'')))\<close>
    using parse_desc [of "sample_desc (lit ''v=0'')"]
    by (simp add: stringify_desc_def sample_desc_def type_name_def quote_def quote_char_def
        is_high_def is_low_def lit_Nil lit_Cons)
  show ?thesis
    by (simp add: p applyAnswer_def setRemoteAnswer_def Let_def log_def caught_def
        sample_script_def)
       (simp add: initial_def)
qed

text \<open>
  C3, amended: \<open>applyAnswer\<close> checks no state of the session. In every state, a pasted
  text that parses is handed to \<open>setRemoteDescription\<close>; if the peer connection rejects it,
  the error is written to the console and the answer is reported invalid, and if it
  accepts, the answer is reported applied.
\<close>

theorem answer_applied_in_any_state:
  assumes "JSON_parse (remoteAnswer s) = Some d"
  shows "trace (pc (applyAnswer sc s)) = trace (pc s) @ [SetRemoteDescription d] \<and>
         (case set_remote_result sc of
            Inl e \<Rightarrow> console (applyAnswer sc s) = console s @ [e] \<and>
                     toasts (applyAnswer sc s) = toasts s @ [ToastReponseInvalide]
          | Inr u \<Rightarrow> console (applyAnswer sc s) = console s \<and>
                     toasts (applyAnswer sc s) = toasts s @ [ToastReponseAppliquee])"
  using assms by (simp add: applyAnswer_def Let_def log_def caught_def split: sum.splits)

theorem answer_applied_in_any_state_witness:
  \<open>trace (pc (applyAnswer sample_script
                (setRemoteAnswer (stringify_desc (Some (sample_desc (lit ''v=0'')))) initial))) =
     [SetRemoteDescription (desc_init (sample_desc (lit ''v=0'')))] \<and>
   toasts (applyAnswer sample_script
             (setRemoteAnswer (stringify_desc (Some (sample_desc (lit ''v=0'')))) initial)) =
     [ToastReponseAppliquee]\<close>
proof -
  let ?s = "setRemoteAnswer (stringify_desc (Some (sample_desc (lit ''v=0'')))) initial"
  have "JSON_parse (remoteAnswer ?s) = Some (desc_init (sample_desc (lit ''v=0'')))"
    by (simp add: setRemoteAnswer_def parse_desc)
  from answer_applied_in_any_state [OF this, of sample_script]
  show ?thesis by (simp add: sample_script_def setRemoteAnswer_def initial_def)
qed

end
